theory Spec2Isabelle
  imports Complex_Main "HOL-Library.Char_ord" "HOL-Library.List_Lexorder" "HOL-Library.Multiset"
begin

section \<open>The APPO learner (algorithms/appo/learner.py)\<close>

text \<open>
  A shallow embedding of \<^verbatim>\<open>LearnerWorker\<close>. Python integers are \<open>int\<close>; the floats the
  learner computes with (tensor elements, \<^verbatim>\<open>kl_coeff\<close>) are values of \<open>fl\<close>, with infinities,
  NaN, rounding and overflow; the clock readings, the hyper-parameters of the configuration and
  the optimizer's settings are finite floats and are given by their value, a \<open>real\<close>; tensors
  and numpy arrays are lists; every exception the source can raise is a value of \<open>error\<close>, and
  a function that can raise returns \<open>error + 'a\<close> with \<open>Inl\<close> for the exception.
\<close>

datatype error =
  ZeroDivisionError | AssertionError | IndexError | KeyError | ValueError | RuntimeError | OSError

subsection \<open>Floating-point numbers\<close>

text \<open>
  A float is a finite number, an infinity or NaN; zero carries no sign. A format is given by
  its largest finite number \<open>fmax\<close> and by its rounding function \<open>rnd\<close>, which sends a real to
  the nearest number of the format as if the exponent range had no upper end: an operation on
  finite numbers rounds the exact result and overflows to an infinity beyond \<open>fmax\<close>. The
  rounding function is a parameter of the model and the definitions assume nothing about it.
\<close>

datatype fl = Fin real | PInf | NInf | NaN

record float_format =
  fmax :: real
  rnd :: "real \<Rightarrow> real"

definition fl_round :: "float_format \<Rightarrow> real \<Rightarrow> fl" where
  "fl_round F x =
     (if rnd F x > fmax F then PInf
      else if rnd F x < - fmax F then NInf
      else Fin (rnd F x))"

text \<open>
  The result of multiplying an infinity by a finite number, or of dividing a finite number by
  zero, from the sign of the finite number.
\<close>

definition inf_of_sign :: "real \<Rightarrow> fl" where
  "inf_of_sign x = (if x > 0 then PInf else if x < 0 then NInf else NaN)"

fun fl_neg :: "fl \<Rightarrow> fl" where
  "fl_neg (Fin x) = Fin (- x)"
| "fl_neg PInf = NInf"
| "fl_neg NInf = PInf"
| "fl_neg NaN = NaN"

fun fl_add :: "float_format \<Rightarrow> fl \<Rightarrow> fl \<Rightarrow> fl" where
  "fl_add F (Fin x) (Fin y) = fl_round F (x + y)"
| "fl_add F NaN b = NaN"
| "fl_add F a NaN = NaN"
| "fl_add F PInf NInf = NaN"
| "fl_add F NInf PInf = NaN"
| "fl_add F PInf b = PInf"
| "fl_add F a PInf = PInf"
| "fl_add F NInf b = NInf"
| "fl_add F a NInf = NInf"

definition fl_sub :: "float_format \<Rightarrow> fl \<Rightarrow> fl \<Rightarrow> fl" where
  "fl_sub F a b = fl_add F a (fl_neg b)"

fun fl_mul :: "float_format \<Rightarrow> fl \<Rightarrow> fl \<Rightarrow> fl" where
  "fl_mul F (Fin x) (Fin y) = fl_round F (x * y)"
| "fl_mul F NaN b = NaN"
| "fl_mul F a NaN = NaN"
| "fl_mul F (Fin x) PInf = inf_of_sign x"
| "fl_mul F (Fin x) NInf = inf_of_sign (- x)"
| "fl_mul F PInf (Fin y) = inf_of_sign y"
| "fl_mul F NInf (Fin y) = inf_of_sign (- y)"
| "fl_mul F PInf PInf = PInf"
| "fl_mul F NInf NInf = PInf"
| "fl_mul F PInf NInf = NInf"
| "fl_mul F NInf PInf = NInf"

text \<open>
  Division of tensors and of Python floats by a divisor that is not a Python zero: a finite
  number over zero is an infinity, or NaN for zero over zero. (Where Python raises
  \<^verbatim>\<open>ZeroDivisionError\<close> the model says so at the place of the division.)
\<close>

fun fl_div :: "float_format \<Rightarrow> fl \<Rightarrow> fl \<Rightarrow> fl" where
  "fl_div F (Fin x) (Fin y) = (if y = 0 then inf_of_sign x else fl_round F (x / y))"
| "fl_div F NaN b = NaN"
| "fl_div F a NaN = NaN"
| "fl_div F (Fin x) PInf = Fin 0"
| "fl_div F (Fin x) NInf = Fin 0"
| "fl_div F PInf (Fin y) = (if y < 0 then NInf else PInf)"
| "fl_div F NInf (Fin y) = (if y < 0 then PInf else NInf)"
| "fl_div F PInf PInf = NaN"
| "fl_div F PInf NInf = NaN"
| "fl_div F NInf PInf = NaN"
| "fl_div F NInf NInf = NaN"

fun fl_sqrt :: "float_format \<Rightarrow> fl \<Rightarrow> fl" where
  "fl_sqrt F (Fin x) = (if x < 0 then NaN else fl_round F (sqrt x))"
| "fl_sqrt F PInf = PInf"
| "fl_sqrt F NInf = NaN"
| "fl_sqrt F NaN = NaN"

text \<open>The comparisons \<^verbatim>\<open><\<close> and \<^verbatim>\<open><=\<close>: every comparison with NaN is false.\<close>

fun fl_less :: "fl \<Rightarrow> fl \<Rightarrow> bool" where
  "fl_less (Fin x) (Fin y) = (x < y)"
| "fl_less NaN b = False"
| "fl_less a NaN = False"
| "fl_less a NInf = False"
| "fl_less PInf b = False"
| "fl_less NInf b = True"
| "fl_less a PInf = True"

definition fl_le :: "fl \<Rightarrow> fl \<Rightarrow> bool" where
  "fl_le a b \<longleftrightarrow> fl_less a b \<or> (a = b \<and> a \<noteq> NaN)"

text \<open>\<^verbatim>\<open>torch.min\<close> of two elements: NaN if either is.\<close>

definition fl_min :: "fl \<Rightarrow> fl \<Rightarrow> fl" where
  "fl_min a b = (if a = NaN \<or> b = NaN then NaN else if fl_less b a then b else a)"

text \<open>Python's \<^verbatim>\<open>max(a, b)\<close>: the first argument unless the second is greater.\<close>

definition py_max :: "fl \<Rightarrow> fl \<Rightarrow> fl" where
  "py_max a b = (if fl_less a b then b else a)"

fun is_finite :: "fl \<Rightarrow> bool" where
  "is_finite (Fin x) = True"
| "is_finite PInf = False"
| "is_finite NInf = False"
| "is_finite NaN = False"

text \<open>A float of the format: an infinity, NaN, or a finite number the format represents.\<close>

fun in_format :: "float_format \<Rightarrow> fl \<Rightarrow> bool" where
  "in_format F (Fin x) = (rnd F x = x \<and> \<bar>x\<bar> \<le> fmax F)"
| "in_format F PInf = True"
| "in_format F NInf = True"
| "in_format F NaN = True"

text \<open>
  torch tensors are \<^verbatim>\<open>float32\<close> and Python floats are \<^verbatim>\<open>float64\<close>. A decimal literal of the
  source is the Python float nearest to it. In an operation of a tensor with a Python float,
  and in a comparison of the two, torch takes the Python float to \<^verbatim>\<open>float32\<close> first.
\<close>

record arith =
  float32 :: float_format
  float64 :: float_format

definition py_literal :: "arith \<Rightarrow> real \<Rightarrow> fl" where
  "py_literal A x = fl_round (float64 A) x"

fun to_float32 :: "arith \<Rightarrow> fl \<Rightarrow> fl" where
  "to_float32 A (Fin x) = fl_round (float32 A) x"
| "to_float32 A PInf = PInf"
| "to_float32 A NInf = NInf"
| "to_float32 A NaN = NaN"

text \<open>
  The formats of the examples: \<^verbatim>\<open>float32\<close> and \<^verbatim>\<open>float64\<close> with their largest finite numbers,
  rounding the literals \<^verbatim>\<open>1e-2\<close> and \<^verbatim>\<open>1e-6\<close> and the Python floats \<^verbatim>\<open>0.01\<close> and \<^verbatim>\<open>0.3\<close> as
  the two formats do, and exact on every other number (the examples compute with binary
  fractions, on which the real formats are exact too).
\<close>

definition example_arith :: arith where
  "example_arith =
     \<lparr>float32 =
        \<lparr>fmax = 340282346638528859811704183484516925440,
         rnd = (\<lambda>x. if x = 5404319552844595 / 18014398509481984 then 5033165 / 16777216
                    else if x = 5764607523034235 / 576460752303423488 then 5368709 / 536870912
                    else x)\<rparr>,
      float64 =
        \<lparr>fmax = 2 ^ 1024 - 2 ^ 971,
         rnd = (\<lambda>x. if x = 1 / 100 then 5764607523034235 / 576460752303423488
                    else if x = 1 / 1000000 then 4722366482869645 / 4722366482869645213696
                    else x)\<rparr>\<rparr>"

subsection \<open>Discarding rate (\<^verbatim>\<open>_experience_collection_rate_stats\<close>, \<^verbatim>\<open>_discarding_rate\<close>)\<close>

text \<open>
  \<^verbatim>\<open>_discarding_rate\<close> returns the integer literal \<open>0\<close> from its guard and the float quotient
  otherwise, so the returned Python number keeps its type.
\<close>

datatype pynum = PyInt int | PyFloat real

text \<open>The number a Python value stands for: \<^verbatim>\<open>0 == 0.0\<close> holds in Python.\<close>

fun pynum_value :: "pynum \<Rightarrow> real" where
  "pynum_value (PyInt i) = real_of_int i"
| "pynum_value (PyFloat x) = x"

text \<open>Python's \<^verbatim>\<open>/\<close> of an int by a float: it raises on a zero divisor.\<close>

definition py_truediv :: "int \<Rightarrow> real \<Rightarrow> error + real" where
  "py_truediv a b = (if b = 0 then Inl ZeroDivisionError else Inr (real_of_int a / b))"

text \<open>
  The window \<^verbatim>\<open>discarded_experience_over_time\<close> is a \<^verbatim>\<open>deque(maxlen=30)\<close> of pairs
  \<open>(timestamp, num_discarded_rollouts)\<close>, oldest first.
\<close>

type_synonym window = "(real \<times> int) list"

definition deque_append :: "nat \<Rightarrow> 'a list \<Rightarrow> 'a \<Rightarrow> 'a list" where
  "deque_append maxlen q x =
     (if maxlen = 0 then []
      else if length q \<ge> maxlen then drop (Suc (length q) - maxlen) (q @ [x])
      else q @ [x])"

definition discarding_rate :: "window \<Rightarrow> error + pynum" where
  "discarding_rate w =
     (if length w \<le> 0 then Inr (PyInt 0)
      else
        let first = hd w; last_s = last w;
            delta_rollouts = snd last_s - snd first;
            delta_time = fst last_s - fst first
        in case py_truediv delta_rollouts delta_time of
             Inl e \<Rightarrow> Inl e
           | Inr r \<Rightarrow> Inr (PyFloat r))"

text \<open>
  \<^verbatim>\<open>_experience_collection_rate_stats\<close> on the triple (timer, window, counter), with the
  clock reading \<open>now\<close> as input; it returns the new timer and window.
\<close>

definition experience_collection_rate_stats ::
    "real \<Rightarrow> real \<Rightarrow> window \<Rightarrow> int \<Rightarrow> real \<times> window" where
  "experience_collection_rate_stats now timer w num_discarded =
     (if now - timer > 1.0 then (now, deque_append 30 w (now, num_discarded))
      else (timer, w))"

subsection \<open>Python arithmetic and slices\<close>

definition py_floordiv :: "int \<Rightarrow> int \<Rightarrow> error + int" where
  "py_floordiv a b = (if b = 0 then Inl ZeroDivisionError else Inr (a div b))"

text \<open>\<^verbatim>\<open>assert a % b == 0\<close>: the exception it raises, if any.\<close>

definition assert_mod_zero :: "int \<Rightarrow> int \<Rightarrow> error option" where
  "assert_mod_zero a b =
     (if b = 0 then Some ZeroDivisionError
      else if a mod b \<noteq> 0 then Some AssertionError
      else None)"

text \<open>\<^verbatim>\<open>xs[:n]\<close> and \<^verbatim>\<open>xs[n:]\<close>; a negative bound counts from the end.\<close>

definition py_slice_to :: "int \<Rightarrow> 'a list \<Rightarrow> 'a list" where
  "py_slice_to n xs = (if 0 \<le> n then take (nat n) xs else take (length xs - nat (- n)) xs)"

definition py_slice_from :: "int \<Rightarrow> 'a list \<Rightarrow> 'a list" where
  "py_slice_from n xs = (if 0 \<le> n then drop (nat n) xs else drop (length xs - nat (- n)) xs)"

subsection \<open>Configuration, rollouts and the readiness bitmap\<close>

record config =
  macro_batch :: int
  rollout :: int
  recurrence :: int
  batch_size :: int
  max_policy_lag :: int
  ppo_epochs :: int
  keep_checkpoints :: int
  target_kl :: real
  gamma :: real
  with_pbt :: bool
  learning_rate :: real
  adam_beta1 :: real
  adam_beta2 :: real

text \<open>
  A rollout descriptor: its keys, \<^verbatim>\<open>length\<close>, \<^verbatim>\<open>env_steps\<close> and, of the tensors \<^verbatim>\<open>r['t']\<close>,
  the per-step \<^verbatim>\<open>policy_version\<close>.
\<close>

record rollout_desc =
  worker_idx :: int
  split_idx :: int
  env_idx :: int
  agent_idx :: int
  traj_buffer_idx :: int
  rollout_length :: int
  rollout_env_steps :: int
  policy_version :: "int list"

text \<open>
  A readiness tensor has a shape and one entry per index triple. Indexing follows torch: an
  index \<open>i\<close> with \<open>-d \<le> i < 0\<close> counts from the end, anything else out of range raises.
\<close>

record ready_tensor =
  shape :: "nat \<times> nat \<times> nat"
  entries :: "nat \<times> nat \<times> nat \<Rightarrow> int"

definition norm_index :: "nat \<Rightarrow> int \<Rightarrow> nat option" where
  "norm_index d i =
     (if 0 \<le> i \<and> i < int d then Some (nat i)
      else if - int d \<le> i \<and> i < 0 then Some (nat (i + int d))
      else None)"

definition tensor_index :: "ready_tensor \<Rightarrow> int \<times> int \<times> int \<Rightarrow> (nat \<times> nat \<times> nat) option" where
  "tensor_index t ix =
     (case (shape t, ix) of ((d0, d1, d2), (i, j, k)) \<Rightarrow>
        (case (norm_index d0 i, norm_index d1 j, norm_index d2 k) of
           (Some a, Some b, Some c) \<Rightarrow> Some (a, b, c)
         | _ \<Rightarrow> None))"

definition tensor_get :: "ready_tensor \<Rightarrow> int \<times> int \<times> int \<Rightarrow> error + int" where
  "tensor_get t ix = (case tensor_index t ix of None \<Rightarrow> Inl IndexError | Some p \<Rightarrow> Inr (entries t p))"

definition tensor_set :: "ready_tensor \<Rightarrow> int \<times> int \<times> int \<Rightarrow> int \<Rightarrow> error + ready_tensor" where
  "tensor_set t ix v =
     (case tensor_index t ix of
        None \<Rightarrow> Inl IndexError
      | Some p \<Rightarrow> Inr (t\<lparr>entries := (entries t)(p := v)\<rparr>))"

text \<open>\<^verbatim>\<open>tensor.min().item()\<close>: torch raises on an empty tensor.\<close>

definition tensor_min :: "int list \<Rightarrow> error + int" where
  "tensor_min xs = (if xs = [] then Inl RuntimeError else Inr (Min (set xs)))"

subsection \<open>Checkpoints, the checkpoint directories and the learner's state\<close>

record 'o optim =
  opt_lr :: real
  opt_betas :: "real \<times> real"
  opt_state :: 'o

text \<open>The dictionary of \<^verbatim>\<open>_get_checkpoint_dict\<close>.\<close>

record ('m, 'o) checkpoint =
  ck_train_step :: int
  ck_env_steps :: int
  ck_kl_coeff :: fl
  ck_model :: 'm
  ck_optimizer :: "'o optim"

text \<open>
  A checkpoint directory lists its entries by name. An entry is a file that holds a saved
  checkpoint, some other file, or a sub-directory. The names of a directory \<open>d\<close> are
  \<open>set (map fst d)\<close>; looking a name up takes its first binding.
\<close>

datatype ('m, 'o) entry = Checkpoint_File "('m, 'o) checkpoint" | Other_File | Directory

type_synonym ('m, 'o) directory = "(string \<times> ('m, 'o) entry) list"

datatype cfg_assign =
  Set_macro_batch int | Set_rollout int | Set_recurrence int | Set_batch_size int
| Set_max_policy_lag int | Set_ppo_epochs int | Set_keep_checkpoints int
| Set_target_kl real | Set_gamma real | Set_with_pbt bool
| Set_learning_rate real | Set_adam_beta1 real | Set_adam_beta2 real

text \<open>
  The experience buffer of a macro-batch is represented by the rollouts whose tensors were
  concatenated into it, in order.
\<close>

type_synonym buffer = "rollout_desc list"

text \<open>
  The fields of \<^verbatim>\<open>LearnerWorker\<close> the modelled methods read or write, the state of numpy's
  random generator, the messages put on the policy workers' queues (every queue receives the
  same sequence, oldest first), and the checkpoint directory of every policy.
\<close>

record ('m, 'o) learner =
  policy_id :: int
  cfg :: config
  should_save_model :: bool
  load_policy_id :: "int option"
  new_cfg :: "cfg_assign list option"
  with_training :: bool
  train_step :: int
  env_steps :: int
  last_saved :: int
  model_saved_event :: bool
  discarded_experience_over_time :: window
  num_discarded_rollouts :: int
  kl_coeff :: fl
  actor_critic :: 'm
  optimizer :: "'o optim"
  traj_buffer_ready :: "int \<times> int \<Rightarrow> ready_tensor option"
  experience_buffer_queue :: "(buffer \<times> int \<times> int) list"
  policy_worker_queues :: "(int \<times> 'm \<times> pynum) list"
  np_random_state :: nat
  checkpoint_dirs :: "int \<Rightarrow> ('m, 'o) directory"

subsection \<open>Rollout intake (\<^verbatim>\<open>_mark_rollout_buffer_free\<close> to \<^verbatim>\<open>_process_rollouts\<close>)\<close>

definition mark_rollout_buffer_free ::
    "('m, 'o) learner \<Rightarrow> rollout_desc \<Rightarrow> error + ('m, 'o) learner" where
  "mark_rollout_buffer_free st r =
     (case traj_buffer_ready st (worker_idx r, split_idx r) of
        None \<Rightarrow> Inl KeyError
      | Some t \<Rightarrow>
          (case tensor_set t (env_idx r, agent_idx r, traj_buffer_idx r) 1 of
             Inl e \<Rightarrow> Inl e
           | Inr t' \<Rightarrow>
               Inr (st\<lparr>traj_buffer_ready :=
                         (traj_buffer_ready st)((worker_idx r, split_idx r) \<mapsto> t')\<rparr>)))"

text \<open>The loop \<^verbatim>\<open>for r in rollouts: self._mark_rollout_buffer_free(r)\<close>.\<close>

fun mark_all_free :: "('m, 'o) learner \<Rightarrow> rollout_desc list \<Rightarrow> error + ('m, 'o) learner" where
  "mark_all_free st [] = Inr st"
| "mark_all_free st (r # rs) =
     (case mark_rollout_buffer_free st r of
        Inl e \<Rightarrow> Inl e
      | Inr st' \<Rightarrow> mark_all_free st' rs)"

text \<open>
  \<^verbatim>\<open>_prepare_train_buffer\<close>: the tensor concatenation is kept abstract (the buffer is the list
  of its rollouts); with no rollout at all the lookup \<^verbatim>\<open>buffer['actions']\<close> raises. The
  source slots are released after the copy.
\<close>

definition prepare_train_buffer ::
    "('m, 'o) learner \<Rightarrow> rollout_desc list \<Rightarrow> error + (('m, 'o) learner \<times> buffer)" where
  "prepare_train_buffer st rollouts =
     (if rollouts = [] then Inl KeyError
      else case mark_all_free st rollouts of
             Inl e \<Rightarrow> Inl e
           | Inr st' \<Rightarrow> Inr (st', rollouts))"

definition process_macro_batch ::
    "('m, 'o) learner \<Rightarrow> rollout_desc list \<Rightarrow> error + ('m, 'o) learner" where
  "process_macro_batch st rollouts =
     (case assert_mod_zero (macro_batch (cfg st)) (rollout (cfg st)) of Some e \<Rightarrow> Inl e | None \<Rightarrow>
      case assert_mod_zero (rollout (cfg st)) (recurrence (cfg st)) of Some e \<Rightarrow> Inl e | None \<Rightarrow>
      case assert_mod_zero (macro_batch (cfg st)) (recurrence (cfg st)) of Some e \<Rightarrow> Inl e | None \<Rightarrow>
      let samples = sum_list (map rollout_length rollouts);
          env_steps_sum = sum_list (map rollout_env_steps rollouts)
      in case prepare_train_buffer st rollouts of
           Inl e \<Rightarrow> Inl e
         | Inr (st', buf) \<Rightarrow>
             Inr (st'\<lparr>experience_buffer_queue :=
                        experience_buffer_queue st' @ [(buf, samples, env_steps_sum)]\<rparr>))"

text \<open>
  The discard loop of \<^verbatim>\<open>_process_rollouts\<close>: it walks the pending list from its head, counts
  and releases every rollout whose oldest policy version lags by \<^verbatim>\<open>max_policy_lag\<close> or more,
  and leaves the loop (\<^verbatim>\<open>break\<close>) at the first rollout that does not.
\<close>

fun discard_loop ::
    "int \<Rightarrow> ('m, 'o) learner \<Rightarrow> nat \<Rightarrow> rollout_desc list \<Rightarrow> error + (('m, 'o) learner \<times> nat)" where
  "discard_loop pv st discard_rollouts [] = Inr (st, discard_rollouts)"
| "discard_loop pv st discard_rollouts (r # rs) =
     (case tensor_min (policy_version r) of
        Inl e \<Rightarrow> Inl e
      | Inr rollout_min_version \<Rightarrow>
          if pv - rollout_min_version \<ge> max_policy_lag (cfg st) then
            (case mark_rollout_buffer_free st r of
               Inl e \<Rightarrow> Inl e
             | Inr st' \<Rightarrow> discard_loop pv st' (discard_rollouts + 1) rs)
          else Inr (st, discard_rollouts))"

definition process_rollouts ::
    "('m, 'o) learner \<Rightarrow> rollout_desc list
       \<Rightarrow> error + (('m, 'o) learner \<times> rollout_desc list \<times> bool)" where
  "process_rollouts st rollouts =
     (case py_floordiv (macro_batch (cfg st)) (rollout (cfg st)) of
        Inl e \<Rightarrow> Inl e
      | Inr rollouts_in_macro_batch \<Rightarrow>
          if int (length rollouts) < rollouts_in_macro_batch then Inr (st, rollouts, False)
          else
            (case discard_loop (train_step st) st 0 rollouts of
               Inl e \<Rightarrow> Inl e
             | Inr (st1, discard_rollouts) \<Rightarrow>
                 let rollouts1 =
                       (if discard_rollouts > 0
                        then py_slice_from (int discard_rollouts) rollouts else rollouts);
                     st2 =
                       (if discard_rollouts > 0
                        then st1\<lparr>num_discarded_rollouts :=
                                   num_discarded_rollouts st1 + int discard_rollouts\<rparr>
                        else st1)
                 in if int (length rollouts1) \<ge> rollouts_in_macro_batch then
                      (case process_macro_batch st2
                              (py_slice_to rollouts_in_macro_batch rollouts1) of
                         Inl e \<Rightarrow> Inl e
                       | Inr st3 \<Rightarrow>
                           Inr (st3, py_slice_from rollouts_in_macro_batch rollouts1, True))
                    else Inr (st2, rollouts1, False)))"

text \<open>A rollout is stale when its oldest policy version lags the train step too far.\<close>

definition is_stale :: "('m, 'o) learner \<Rightarrow> rollout_desc \<Rightarrow> bool" where
  "is_stale st r \<longleftrightarrow> train_step st - Min (set (policy_version r)) \<ge> max_policy_lag (cfg st)"

text \<open>The readiness bit of a rollout's slot, if the slot exists.\<close>

definition ready_bit :: "('m, 'o) learner \<Rightarrow> rollout_desc \<Rightarrow> int option" where
  "ready_bit st r =
     (case traj_buffer_ready st (worker_idx r, split_idx r) of
        None \<Rightarrow> None
      | Some t \<Rightarrow>
          (case tensor_get t (env_idx r, agent_idx r, traj_buffer_idx r) of
             Inl e \<Rightarrow> None
           | Inr v \<Rightarrow> Some v))"

definition admitted_rollouts :: "('m, 'o) learner \<Rightarrow> rollout_desc list \<Rightarrow> rollout_desc list" where
  "admitted_rollouts st rollouts =
     (case process_rollouts st rollouts of
        Inl e \<Rightarrow> []
      | Inr (st', rest, work_done) \<Rightarrow>
          if work_done then fst (last (experience_buffer_queue st')) else [])"

definition example_config :: config where
  "example_config =
     \<lparr>macro_batch = 2, rollout = 1, recurrence = 1, batch_size = 2, max_policy_lag = 5,
      ppo_epochs = 1, keep_checkpoints = 3, target_kl = 1 / 100, gamma = 99 / 100,
      with_pbt = True, learning_rate = 1 / 10000, adam_beta1 = 9 / 10, adam_beta2 = 999 / 1000\<rparr>"

definition example_learner :: "(nat, nat) learner" where
  "example_learner =
     \<lparr>policy_id = 0, cfg = example_config, should_save_model = True, load_policy_id = None,
      new_cfg = None, with_training = True, train_step = 10, env_steps = 0, last_saved = 0,
      model_saved_event = False, discarded_experience_over_time = [],
      num_discarded_rollouts = 0, kl_coeff = Fin (1 / 5), actor_critic = 0,
      optimizer = \<lparr>opt_lr = 1 / 10000, opt_betas = (9 / 10, 999 / 1000), opt_state = 0\<rparr>,
      traj_buffer_ready =
        [(0, 0) \<mapsto> \<lparr>shape = (1, 1, 4), entries = (\<lambda>p. 0)\<rparr>],
      experience_buffer_queue = [], policy_worker_queues = [], np_random_state = 0,
      checkpoint_dirs = (\<lambda>p. [])\<rparr>"

definition example_rollout :: "int \<Rightarrow> int \<Rightarrow> rollout_desc" where
  "example_rollout slot version =
     \<lparr>worker_idx = 0, split_idx = 0, env_idx = 0, agent_idx = 0, traj_buffer_idx = slot,
      rollout_length = 1, rollout_env_steps = 4, policy_version = [version]\<rparr>"

subsection \<open>Minibatch indices (\<^verbatim>\<open>_get_minibatches\<close>)\<close>

text \<open>
  \<^verbatim>\<open>np.arange(start, stop, step)\<close> on integers. A zero step is never passed: the assertion
  \<^verbatim>\<open>rollout % recurrence == 0\<close> has raised before.
\<close>

definition arange :: "int \<Rightarrow> int \<Rightarrow> int \<Rightarrow> int list" where
  "arange start stop step =
     (if step > 0 then
        map (\<lambda>k. start + int k * step) [0..<nat ((stop - start + step - 1) div step)]
      else if step < 0 then
        map (\<lambda>k. start + int k * step) [0..<nat ((start - stop - step - 1) div (- step))]
      else [])"

text \<open>The first \<open>n\<close> consecutive sections of length \<open>k\<close> of a list.\<close>

fun sections :: "nat \<Rightarrow> nat \<Rightarrow> 'a list \<Rightarrow> 'a list list" where
  "sections k 0 xs = []"
| "sections k (Suc n) xs = take k xs # sections k n (drop k xs)"

text \<open>
  \<^verbatim>\<open>np.split(ary, n)\<close> for an integer \<open>n\<close>: the remainder \<^verbatim>\<open>N % n\<close> is taken first, an unequal
  division and a non-positive number of sections raise, otherwise the array is cut into
  \<open>n\<close> sections of \<open>N / n\<close> elements.
\<close>

definition np_split :: "'a list \<Rightarrow> int \<Rightarrow> error + 'a list list" where
  "np_split xs n =
     (if n = 0 then Inl ZeroDivisionError
      else if int (length xs) mod n \<noteq> 0 then Inl ValueError
      else if n < 0 then Inl ValueError
      else Inr (sections (length xs div nat n) (nat n) xs))"

text \<open>
  \<^verbatim>\<open>_get_minibatches\<close>. \<open>perm s\<close> is the permutation \<^verbatim>\<open>np.random.permutation\<close> draws in
  generator state \<open>s\<close>; the state advances with every draw. A minibatch is \<open>None\<close> (the whole
  buffer) or its index array. \<^verbatim>\<open>np.concatenate\<close> raises on an empty list of arrays.
\<close>

definition get_minibatches ::
    "config \<Rightarrow> (nat \<Rightarrow> int list \<Rightarrow> int list) \<Rightarrow> nat \<Rightarrow> int
       \<Rightarrow> error + (int list option list \<times> nat)" where
  "get_minibatches c perm rng experience_size =
     (case assert_mod_zero (rollout c) (recurrence c) of Some e \<Rightarrow> Inl e | None \<Rightarrow>
      case assert_mod_zero experience_size (batch_size c) of Some e \<Rightarrow> Inl e | None \<Rightarrow>
      if macro_batch c = batch_size c then Inr ([None], rng)
      else
        let starts = perm rng (arange 0 experience_size (recurrence c));
            windows = map (\<lambda>i. arange i (i + recurrence c) 1) starts
        in if windows = [] then Inl ValueError
           else
             let indices = concat windows
             in if int (length indices) \<noteq> experience_size then Inl AssertionError
                else
                  (case py_floordiv experience_size (batch_size c) of
                     Inl e \<Rightarrow> Inl e
                   | Inr num_minibatches \<Rightarrow>
                       (case np_split indices num_minibatches of
                          Inl e \<Rightarrow> Inl e
                        | Inr minibatches \<Rightarrow> Inr (map Some minibatches, Suc rng))))"

text \<open>
  An index array consists of contiguous windows of length \<open>r\<close> that start at multiples of
  \<open>r\<close>: cut into sections of length \<open>r\<close>, every section is \<open>[s, s + 1, \<dots>, s + r - 1]\<close> with
  \<open>s mod r = 0\<close>.
\<close>

definition consists_of_windows :: "int \<Rightarrow> int list \<Rightarrow> bool" where
  "consists_of_windows r xs \<longleftrightarrow>
     r > 0 \<and> int (length xs) mod r = 0 \<and>
     list_all (\<lambda>w. w \<noteq> [] \<and> hd w mod r = 0 \<and> w = arange (hd w) (hd w + r) 1)
       (sections (nat r) (length xs div nat r) xs)"

definition split_windows_config :: config where
  "split_windows_config =
     example_config\<lparr>macro_batch := 12, rollout := 4, recurrence := 4, batch_size := 6\<rparr>"

definition whole_windows_config :: config where
  "whole_windows_config =
     example_config\<lparr>macro_batch := 16, rollout := 4, recurrence := 4, batch_size := 8\<rparr>"

subsection \<open>V-trace targets (the \<^verbatim>\<open>torch.no_grad\<close> block of \<^verbatim>\<open>_train\<close>)\<close>

text \<open>
  One-dimensional tensors are lists of floats. \<open>gather xs idx\<close> is \<^verbatim>\<open>xs[idx]\<close> for an index
  array and \<open>scatter xs idx vals\<close> is \<^verbatim>\<open>xs[idx] = vals\<close>; the index arrays of this block hold
  no negative index, an index out of range raises, and so does a value tensor of another
  length. The arithmetic operators work elementwise, in \<^verbatim>\<open>float32\<close>.
\<close>

definition gather :: "'a list \<Rightarrow> int list \<Rightarrow> error + 'a list" where
  "gather xs idx =
     (if list_all (\<lambda>i. 0 \<le> i \<and> i < int (length xs)) idx
      then Inr (map (\<lambda>i. xs ! nat i) idx) else Inl IndexError)"

fun scatter :: "'a list \<Rightarrow> int list \<Rightarrow> 'a list \<Rightarrow> error + 'a list" where
  "scatter xs [] [] = Inr xs"
| "scatter xs (i # idx) (v # vals) =
     (if 0 \<le> i \<and> i < int (length xs) then scatter (xs[nat i := v]) idx vals
      else Inl IndexError)"
| "scatter xs [] (v # vals) = Inl RuntimeError"
| "scatter xs (i # idx) [] = Inl RuntimeError"

definition t_add :: "float_format \<Rightarrow> fl list \<Rightarrow> fl list \<Rightarrow> fl list" where
  "t_add F xs ys = map2 (fl_add F) xs ys"

definition t_sub :: "float_format \<Rightarrow> fl list \<Rightarrow> fl list \<Rightarrow> fl list" where
  "t_sub F xs ys = map2 (fl_sub F) xs ys"

definition t_mul :: "float_format \<Rightarrow> fl list \<Rightarrow> fl list \<Rightarrow> fl list" where
  "t_mul F xs ys = map2 (fl_mul F) xs ys"

text \<open>
  \<^verbatim>\<open>tensor.mean()\<close> and \<^verbatim>\<open>tensor.std()\<close> (with Bessel's correction), the sums taken from left
  to right. The mean of no element is NaN, and so is the deviation of fewer than two.
\<close>

definition tensor_sum :: "float_format \<Rightarrow> fl list \<Rightarrow> fl" where
  "tensor_sum F xs = foldl (fl_add F) (Fin 0) xs"

definition tensor_mean :: "float_format \<Rightarrow> fl list \<Rightarrow> fl" where
  "tensor_mean F xs = fl_div F (tensor_sum F xs) (Fin (real (length xs)))"

definition tensor_std :: "float_format \<Rightarrow> fl list \<Rightarrow> fl" where
  "tensor_std F xs =
     (if length xs \<le> 1 then NaN
      else
        let m = tensor_mean F xs;
            squares = map (\<lambda>x. fl_mul F (fl_sub F x m) (fl_sub F x m)) xs
        in fl_sqrt F (fl_div F (tensor_sum F squares) (Fin (real (length xs) - 1))))"

text \<open>
  \<^verbatim>\<open>values = result.values.squeeze()\<close>: \<^verbatim>\<open>result.values\<close> has one row per sample of the
  minibatch and one column. Squeezing leaves a one-dimensional tensor, except that for a
  minibatch of one sample it leaves a tensor of no dimension, which an index array cannot
  index.
\<close>

datatype tensor = Tensor0 fl | Tensor1 "fl list"

definition squeeze :: "fl list \<Rightarrow> tensor" where
  "squeeze xs = (case xs of [x] \<Rightarrow> Tensor0 x | _ \<Rightarrow> Tensor1 xs)"

fun index_tensor :: "tensor \<Rightarrow> int list \<Rightarrow> error + fl list" where
  "index_tensor (Tensor0 x) idx = Inl IndexError"
| "index_tensor (Tensor1 xs) idx = gather xs idx"

text \<open>
  The tensors the block reads: the importance ratios, the column of \<^verbatim>\<open>result.values\<close>, the
  rewards and the episode-end flags of the minibatch.
\<close>

record vtrace_input =
  ratios_cpu :: "fl list"
  result_values :: "fl list"
  rewards_cpu :: "fl list"
  dones_cpu :: "fl list"

text \<open>
  The loop \<^verbatim>\<open>for i in reversed(range(recurrence))\<close>: the count \<open>Suc i\<close> stands for the
  iteration with index \<open>i\<close>; the state is \<open>(next_values, next_vs, vs, adv)\<close>.
\<close>

fun vtrace_loop ::
    "arith \<Rightarrow> config \<Rightarrow> vtrace_input \<Rightarrow> tensor \<Rightarrow> fl list \<Rightarrow> fl list \<Rightarrow> nat
       \<Rightarrow> fl list \<times> fl list \<times> fl list \<times> fl list
       \<Rightarrow> error + (fl list \<times> fl list)" where
  "vtrace_loop A c inp values_cpu vtrace_rho vtrace_c 0 (next_values, next_vs, vs, adv) =
     Inr (vs, adv)"
| "vtrace_loop A c inp values_cpu vtrace_rho vtrace_c (Suc i) (next_values, next_vs, vs, adv) =
     (let F = float32 A;
          timestep = arange (int i) (batch_size c) (recurrence c) in
      case gather (rewards_cpu inp) timestep of Inl e \<Rightarrow> Inl e | Inr rewards \<Rightarrow>
      case gather (dones_cpu inp) timestep of Inl e \<Rightarrow> Inl e | Inr dones \<Rightarrow>
      let not_done = map (\<lambda>d. fl_sub F (Fin 1) d) dones;
          not_done_times_gamma = map (\<lambda>x. fl_mul F x (to_float32 A (Fin (gamma c)))) not_done
      in
      case index_tensor values_cpu timestep of Inl e \<Rightarrow> Inl e | Inr curr_values \<Rightarrow>
      case gather vtrace_rho timestep of Inl e \<Rightarrow> Inl e | Inr curr_vtrace_rho \<Rightarrow>
      case gather vtrace_c timestep of Inl e \<Rightarrow> Inl e | Inr curr_vtrace_c \<Rightarrow>
      let delta_s =
            t_mul F curr_vtrace_rho
              (t_sub F (t_add F rewards (t_mul F not_done_times_gamma next_values)) curr_values);
          adv_t =
            t_mul F curr_vtrace_rho
              (t_sub F (t_add F rewards (t_mul F not_done_times_gamma next_vs)) curr_values)
      in
      case scatter adv timestep adv_t of Inl e \<Rightarrow> Inl e | Inr adv' \<Rightarrow>
      let next_vs' =
            t_add F (t_add F curr_values delta_s)
              (t_mul F (t_mul F not_done_times_gamma curr_vtrace_c) (t_sub F next_vs next_values))
      in
      case scatter vs timestep next_vs' of Inl e \<Rightarrow> Inl e | Inr vs' \<Rightarrow>
      vtrace_loop A c inp values_cpu vtrace_rho vtrace_c i (curr_values, next_vs', vs', adv'))"

text \<open>
  The block from \<^verbatim>\<open>values = result.values.squeeze()\<close> to the normalised advantage, after the
  two assertions on the shape of the core outputs (\<open>recurrence\<close> time steps, which
  \<^verbatim>\<open>torch.stack\<close> needs to be at least one, times \<open>num_trajectories\<close> is \<open>batch_size\<close>). It
  returns \<open>vs\<close>, the advantage before normalisation and the normalised advantage.
  \<^verbatim>\<open>max(1e-2, adv_std)\<close> asks whether \<^verbatim>\<open>adv_std > 1e-2\<close>, a comparison in \<^verbatim>\<open>float32\<close>, and
  the division takes the literal to \<^verbatim>\<open>float32\<close> as well.
\<close>

definition vtrace ::
    "arith \<Rightarrow> config \<Rightarrow> nat \<Rightarrow> vtrace_input \<Rightarrow> error + (fl list \<times> fl list \<times> fl list)" where
  "vtrace A c num_trajectories inp =
     (if recurrence c \<le> 0 then Inl RuntimeError
      else if recurrence c * int num_trajectories \<noteq> batch_size c then Inl AssertionError
      else
        let F = float32 A;
            values_cpu = squeeze (result_values inp);
            rho_hat = Fin 1; c_hat = Fin 1;
            vtrace_rho = map (fl_min rho_hat) (ratios_cpu inp);
            vtrace_c = map (fl_min c_hat) (ratios_cpu inp);
            vs = replicate (num_trajectories * nat (recurrence c)) (Fin 0);
            adv = replicate (num_trajectories * nat (recurrence c)) (Fin 0);
            last_timestep = arange (recurrence c - 1) (batch_size c) (recurrence c)
        in
        case index_tensor values_cpu last_timestep of Inl e \<Rightarrow> Inl e | Inr last_values \<Rightarrow>
        case gather (rewards_cpu inp) last_timestep of Inl e \<Rightarrow> Inl e | Inr last_rewards \<Rightarrow>
        let next_values =
              map (\<lambda>x. fl_div F x (to_float32 A (Fin (gamma c)))) (t_sub F last_values last_rewards);
            next_vs = next_values
        in
        case vtrace_loop A c inp values_cpu vtrace_rho vtrace_c (nat (recurrence c))
               (next_values, next_vs, vs, adv) of
          Inl e \<Rightarrow> Inl e
        | Inr (vs', adv') \<Rightarrow>
            let adv_mean = tensor_mean F adv';
                adv_std = tensor_std F adv';
                divisor = py_max (to_float32 A (py_literal A (1 / 100))) adv_std
            in Inr (vs', adv', map (\<lambda>a. fl_div F (fl_sub F a adv_mean) divisor) adv'))"

text \<open>
  The value that follows position \<open>t\<close> in its sub-trajectory, as the recurrence sees it when
  the targets equal the values: the value of the next time step, and after the last step of
  a sub-trajectory the bootstrap \<^verbatim>\<open>(values - rewards) / gamma\<close>. With it, the one-step
  temporal-difference error \<^verbatim>\<open>rewards + not_done_times_gamma * next_values - curr_values\<close> at
  position \<open>t\<close>.
\<close>

definition next_value :: "arith \<Rightarrow> config \<Rightarrow> vtrace_input \<Rightarrow> nat \<Rightarrow> fl" where
  "next_value A c inp t =
     (if int t mod recurrence c = recurrence c - 1
      then fl_div (float32 A)
             (fl_sub (float32 A) (result_values inp ! t) (rewards_cpu inp ! t))
             (to_float32 A (Fin (gamma c)))
      else result_values inp ! Suc t)"

definition td_error :: "arith \<Rightarrow> config \<Rightarrow> vtrace_input \<Rightarrow> nat \<Rightarrow> fl" where
  "td_error A c inp t =
     (let F = float32 A;
          not_done_times_gamma =
            fl_mul F (fl_sub F (Fin 1) (dones_cpu inp ! t)) (to_float32 A (Fin (gamma c)))
      in fl_sub F
           (fl_add F (rewards_cpu inp ! t) (fl_mul F not_done_times_gamma (next_value A c inp t)))
           (result_values inp ! t))"

definition example_vtrace_input :: vtrace_input where
  "example_vtrace_input =
     \<lparr>ratios_cpu = [Fin 0, Fin 0, Fin 0, Fin 0],
      result_values = [Fin 1, Fin 2, Fin 3, Fin 4],
      rewards_cpu = [Fin 1, Fin 0, Fin 1, Fin 0],
      dones_cpu = [Fin 0, Fin 1, Fin 0, Fin 0]\<rparr>"

subsection \<open>Checkpoint files (\<^verbatim>\<open>get_checkpoints\<close>, \<^verbatim>\<open>_save\<close>, \<^verbatim>\<open>load_checkpoint\<close>, \<^verbatim>\<open>_load_state\<close>)\<close>

text \<open>Decimal digits, most significant first, as \<^verbatim>\<open>str\<close> and the format \<^verbatim>\<open>d\<close> print them.\<close>

definition digit_char :: "nat \<Rightarrow> char" where
  "digit_char d = char_of (48 + d)"

function dec :: "nat \<Rightarrow> string" where
  "dec n = (if n < 10 then [digit_char n] else dec (n div 10) @ [digit_char (n mod 10)])"
  by pat_completeness auto
termination
  by (relation "measure id") auto

declare dec.simps [simp del]

definition str_int :: "int \<Rightarrow> string" where
  "str_int n = (if n < 0 then CHR ''-'' # dec (nat (- n)) else dec (nat n))"

text \<open>
  The format \<^verbatim>\<open>09d\<close>: zeros are filled in after the sign up to a total width of 9; a longer
  number is printed in full.
\<close>

definition format_09d :: "int \<Rightarrow> string" where
  "format_09d n =
     (if n < 0
      then CHR ''-'' # replicate (8 - length (dec (nat (- n)))) CHR ''0'' @ dec (nat (- n))
      else replicate (9 - length (dec (nat n))) CHR ''0'' @ dec (nat n))"

text \<open>\<^verbatim>\<open>f'checkpoint_{self.train_step:09d}_{self.env_steps}.pth'\<close>.\<close>

definition checkpoint_name :: "int \<Rightarrow> int \<Rightarrow> string" where
  "checkpoint_name ts es = ''checkpoint_'' @ format_09d ts @ ''_'' @ str_int es @ ''.pth''"

text \<open>The glob pattern \<^verbatim>\<open>checkpoint_*\<close>.\<close>

definition is_checkpoint_name :: "string \<Rightarrow> bool" where
  "is_checkpoint_name n \<longleftrightarrow> take 11 n = ''checkpoint_''"

text \<open>
  \<^verbatim>\<open>get_checkpoints\<close>: the names of the directory that match the pattern, each once, sorted
  as Python sorts strings (lexicographically by character code).
\<close>

definition get_checkpoints :: "('m, 'o) directory \<Rightarrow> string list" where
  "get_checkpoints d = sort (remdups (filter is_checkpoint_name (map fst d)))"

definition get_checkpoint_dict :: "('m, 'o) learner \<Rightarrow> ('m, 'o) checkpoint" where
  "get_checkpoint_dict st =
     \<lparr>ck_train_step = train_step st, ck_env_steps = env_steps st, ck_kl_coeff = kl_coeff st,
      ck_model = actor_critic st, ck_optimizer = optimizer st\<rparr>"

text \<open>File operations on a directory. Writing and removing act on every binding of the name.\<close>

definition dir_write :: "string \<Rightarrow> ('m, 'o) entry \<Rightarrow> ('m, 'o) directory \<Rightarrow> ('m, 'o) directory" where
  "dir_write n e d = (n, e) # filter (\<lambda>p. fst p \<noteq> n) d"

definition os_remove :: "string \<Rightarrow> ('m, 'o) directory \<Rightarrow> ('m, 'o) directory" where
  "os_remove n d = filter (\<lambda>p. fst p \<noteq> n) d"

definition isfile :: "('m, 'o) directory \<Rightarrow> string \<Rightarrow> bool" where
  "isfile d n =
     (case map_of d n of
        Some (Checkpoint_File ck) \<Rightarrow> True
      | Some Other_File \<Rightarrow> True
      | Some Directory \<Rightarrow> False
      | None \<Rightarrow> False)"

text \<open>\<^verbatim>\<open>torch.save(checkpoint, path)\<close>: it cannot write over a directory.\<close>

definition torch_save ::
    "('m, 'o) directory \<Rightarrow> string \<Rightarrow> ('m, 'o) checkpoint \<Rightarrow> error + ('m, 'o) directory" where
  "torch_save d n ck =
     (if map_of d n = Some Directory then Inl OSError
      else Inr (dir_write n (Checkpoint_File ck) d))"

text \<open>
  \<^verbatim>\<open>os.rename(src, dst)\<close> of a file: it replaces an existing file and raises when the source
  is missing or the destination is a directory. (\<^verbatim>\<open>_save\<close> renames the file it has just
  written; a directory as the source is reported as an error.)
\<close>

definition os_rename ::
    "('m, 'o) directory \<Rightarrow> string \<Rightarrow> string \<Rightarrow> error + ('m, 'o) directory" where
  "os_rename d src dst =
     (case map_of d src of
        None \<Rightarrow> Inl OSError
      | Some Directory \<Rightarrow> Inl OSError
      | Some e \<Rightarrow>
          if map_of d dst = Some Directory then Inl OSError
          else Inr (dir_write dst e (os_remove src d)))"

text \<open>
  The rotation loop of \<^verbatim>\<open>_save\<close>. When the oldest entry is not a regular file nothing is
  removed and the loop runs again on the same directory, without end: not returning is the
  value \<open>None\<close>.
\<close>

partial_function (option) remove_old_checkpoints ::
    "int \<Rightarrow> ('m, 'o) directory \<Rightarrow> (error + ('m, 'o) directory) option" where
  "remove_old_checkpoints keep d =
     (if int (length (get_checkpoints d)) > keep then
        (case get_checkpoints d of
           [] \<Rightarrow> Some (Inl IndexError)
         | oldest_checkpoint # rest \<Rightarrow>
             if isfile d oldest_checkpoint
             then remove_old_checkpoints keep (os_remove oldest_checkpoint d)
             else remove_old_checkpoints keep d)
      else Some (Inr d))"

definition save :: "('m, 'o) learner \<Rightarrow> (error + ('m, 'o) learner) option" where
  "save st =
     (let checkpoint = get_checkpoint_dict st;
          checkpoint_dir = checkpoint_dirs st (policy_id st);
          tmp_filepath = ''checkpoint_tmp'';
          filepath = checkpoint_name (train_step st) (env_steps st)
      in case torch_save checkpoint_dir tmp_filepath checkpoint of
           Inl e \<Rightarrow> Some (Inl e)
         | Inr d1 \<Rightarrow>
             (case os_rename d1 tmp_filepath filepath of
                Inl e \<Rightarrow> Some (Inl e)
              | Inr d2 \<Rightarrow>
                  (case remove_old_checkpoints (keep_checkpoints (cfg st)) d2 of
                     None \<Rightarrow> None
                   | Some (Inl e) \<Rightarrow> Some (Inl e)
                   | Some (Inr d3) \<Rightarrow>
                       Some (Inr (st\<lparr>checkpoint_dirs :=
                                       (checkpoint_dirs st)(policy_id st := d3)\<rparr>)))))"

text \<open>\<^verbatim>\<open>torch.load\<close> of a name of the directory.\<close>

definition torch_load :: "('m, 'o) directory \<Rightarrow> string \<Rightarrow> error + ('m, 'o) checkpoint" where
  "torch_load d n =
     (case map_of d n of
        Some (Checkpoint_File ck) \<Rightarrow> Inr ck
      | Some Other_File \<Rightarrow> Inl RuntimeError
      | Some Directory \<Rightarrow> Inl OSError
      | None \<Rightarrow> Inl OSError)"

definition load_checkpoint ::
    "('m, 'o) directory \<Rightarrow> string list \<Rightarrow> error + ('m, 'o) checkpoint option" where
  "load_checkpoint d checkpoints =
     (if length checkpoints \<le> 0 then Inr None
      else
        let latest_checkpoint = last checkpoints
        in case torch_load d latest_checkpoint of
             Inl e \<Rightarrow> Inl e
           | Inr checkpoint_dict \<Rightarrow> Inr (Some checkpoint_dict))"

definition load_state ::
    "('m, 'o) learner \<Rightarrow> ('m, 'o) checkpoint \<Rightarrow> bool \<Rightarrow> ('m, 'o) learner" where
  "load_state st checkpoint_dict load_progress =
     (let st1 =
            (if load_progress
             then st\<lparr>train_step := ck_train_step checkpoint_dict,
                     env_steps := ck_env_steps checkpoint_dict\<rparr>
             else st)
      in st1\<lparr>kl_coeff := ck_kl_coeff checkpoint_dict,
              actor_critic := ck_model checkpoint_dict,
              optimizer := ck_optimizer checkpoint_dict\<rparr>)"

definition load_from_checkpoint :: "('m, 'o) learner \<Rightarrow> int \<Rightarrow> error + ('m, 'o) learner" where
  "load_from_checkpoint st pid =
     (let checkpoints = get_checkpoints (checkpoint_dirs st pid)
      in case load_checkpoint (checkpoint_dirs st pid) checkpoints of
           Inl e \<Rightarrow> Inl e
         | Inr None \<Rightarrow> Inr st
         | Inr (Some checkpoint_dict) \<Rightarrow>
             Inr (load_state st checkpoint_dict (pid = policy_id st)))"

text \<open>The last \<open>k\<close> decimal digits of a number, in exactly \<open>k\<close> characters.\<close>

fun fixw :: "nat \<Rightarrow> nat \<Rightarrow> string" where
  "fixw 0 n = []"
| "fixw (Suc k) n = fixw k (n div 10) @ [digit_char (n mod 10)]"

text \<open>
  Successive calls of \<^verbatim>\<open>_save\<close>, the progress counters \<open>(train_step, env_steps)\<close> standing at
  the given values at each call.
\<close>

fun saves :: "(int \<times> int) list \<Rightarrow> ('m, 'o) learner \<Rightarrow> (error + ('m, 'o) learner) option" where
  "saves [] st = Some (Inr st)"
| "saves ((ts, es) # rest) st =
     (case save (st\<lparr>train_step := ts, env_steps := es\<rparr>) of
        None \<Rightarrow> None
      | Some (Inl e) \<Rightarrow> Some (Inl e)
      | Some (Inr st') \<Rightarrow> saves rest st')"

definition example_checkpoint :: "int \<Rightarrow> int \<Rightarrow> (nat, nat) checkpoint" where
  "example_checkpoint ts es =
     \<lparr>ck_train_step = ts, ck_env_steps = es, ck_kl_coeff = Fin (3 / 10), ck_model = 7,
      ck_optimizer = \<lparr>opt_lr = 1 / 1000, opt_betas = (9 / 10, 99 / 100), opt_state = 8\<rparr>\<rparr>"

definition example_directory :: "(nat, nat) directory" where
  "example_directory =
     [(checkpoint_name 12 2400, Checkpoint_File (example_checkpoint 12 2400)),
      (''notes.txt'', Other_File),
      (checkpoint_name 5 100, Checkpoint_File (example_checkpoint 5 100))]"

definition pbt_learner :: "(nat, nat) learner" where
  "pbt_learner =
     example_learner\<lparr>train_step := 100, env_steps := 10000,
       checkpoint_dirs :=
         (\<lambda>p. [(checkpoint_name 80 8000, Checkpoint_File (example_checkpoint 80 8000))])\<rparr>"

text \<open>The state after successive saves that all return.\<close>

definition after_saves :: "(int \<times> int) list \<Rightarrow> ('m, 'o) learner \<Rightarrow> ('m, 'o) learner" where
  "after_saves xs st = (case saves xs st of Some (Inr st') \<Rightarrow> st' | _ \<Rightarrow> st)"

subsection \<open>Training (\<^verbatim>\<open>_after_optimizer_step\<close>, \<^verbatim>\<open>_maybe_save\<close>, \<^verbatim>\<open>_train\<close>)\<close>

text \<open>
  What the learner takes from outside this file: the floating-point formats, the save
  interval \<^verbatim>\<open>save_rate_decay.at(train_step)\<close> (class \<^verbatim>\<open>LinearDecay\<close>), the permutation numpy
  draws in a given generator state, and the optimisation of one minibatch (forward pass,
  V-trace, losses, backward pass and \<^verbatim>\<open>optimizer.step()\<close>), which reads the learner, the buffer
  and the indices and yields the new model, the new optimizer state and the minibatch's
  \<^verbatim>\<open>kl_old_mean\<close> (the element of a \<^verbatim>\<open>float32\<close> tensor), or raises.
\<close>

record ('m, 'o) externals =
  floats :: arith
  save_rate_decay_at :: "int \<Rightarrow> real"
  random_permutation :: "nat \<Rightarrow> int list \<Rightarrow> int list"
  minibatch_update ::
    "('m, 'o) learner \<Rightarrow> buffer \<Rightarrow> int list option \<Rightarrow> error + ('m \<times> 'o optim \<times> fl)"

text \<open>
  The local variable \<^verbatim>\<open>kl_old_mean\<close> of \<^verbatim>\<open>_train\<close>: the Python float \<^verbatim>\<open>0.0\<close> until a minibatch
  has run, the tensor \<^verbatim>\<open>kl_old.mean()\<close> of the last minibatch afterwards. A tensor is compared
  with a Python float in \<^verbatim>\<open>float32\<close>; two Python floats are compared as they are.
\<close>

datatype scalar = Python_float fl | Float32_tensor fl

fun scalar_greater :: "arith \<Rightarrow> scalar \<Rightarrow> fl \<Rightarrow> bool" where
  "scalar_greater A (Python_float a) b = fl_less b a"
| "scalar_greater A (Float32_tensor a) b = fl_less (to_float32 A b) a"

fun scalar_less :: "arith \<Rightarrow> scalar \<Rightarrow> fl \<Rightarrow> bool" where
  "scalar_less A (Python_float a) b = fl_less a b"
| "scalar_less A (Float32_tensor a) b = fl_less a (to_float32 A b)"

definition maybe_save ::
    "('m, 'o) externals \<Rightarrow> ('m, 'o) learner \<Rightarrow> (error + ('m, 'o) learner) option" where
  "maybe_save ex st =
     (let save_every = save_rate_decay_at ex (train_step st)
      in if real_of_int (train_step st - last_saved st) \<ge> save_every \<or> should_save_model st
         then
           (case save st of
              None \<Rightarrow> None
            | Some (Inl e) \<Rightarrow> Some (Inl e)
            | Some (Inr st') \<Rightarrow>
                Some (Inr (st'\<lparr>model_saved_event := True, should_save_model := False,
                              last_saved := train_step st'\<rparr>)))
         else Some (Inr st))"

definition after_optimizer_step ::
    "('m, 'o) externals \<Rightarrow> ('m, 'o) learner \<Rightarrow> (error + ('m, 'o) learner) option" where
  "after_optimizer_step ex st = maybe_save ex (st\<lparr>train_step := train_step st + 1\<rparr>)"

text \<open>
  The loop over the minibatches of one epoch. The loop state is the learner together with
  the local variables \<^verbatim>\<open>kl_old_mean\<close> and \<^verbatim>\<open>num_sgd_steps\<close>. (The summaries that \<^verbatim>\<open>_train\<close>
  collects on the way are not modelled.)
\<close>

fun minibatch_loop ::
    "('m, 'o) externals \<Rightarrow> buffer \<Rightarrow> int list option list
       \<Rightarrow> ('m, 'o) learner \<times> scalar \<times> nat
       \<Rightarrow> (error + (('m, 'o) learner \<times> scalar \<times> nat)) option" where
  "minibatch_loop ex buf [] acc = Some (Inr acc)"
| "minibatch_loop ex buf (indices # rest) (st, kl_old_mean, num_sgd_steps) =
     (case minibatch_update ex st buf indices of
        Inl e \<Rightarrow> Some (Inl e)
      | Inr (model, opt, kl_old_mean') \<Rightarrow>
          (case after_optimizer_step ex (st\<lparr>actor_critic := model, optimizer := opt\<rparr>) of
             None \<Rightarrow> None
           | Some (Inl e) \<Rightarrow> Some (Inl e)
           | Some (Inr st') \<Rightarrow>
               minibatch_loop ex buf rest (st', Float32_tensor kl_old_mean', num_sgd_steps + 1)))"

text \<open>The loop \<^verbatim>\<open>for epoch in range(self.cfg.ppo_epochs)\<close>, by the number of epochs left.\<close>

fun epoch_loop ::
    "('m, 'o) externals \<Rightarrow> buffer \<Rightarrow> int \<Rightarrow> nat
       \<Rightarrow> ('m, 'o) learner \<times> scalar \<times> nat
       \<Rightarrow> (error + (('m, 'o) learner \<times> scalar \<times> nat)) option" where
  "epoch_loop ex buf experience_size 0 acc = Some (Inr acc)"
| "epoch_loop ex buf experience_size (Suc epochs) (st, kl_old_mean, num_sgd_steps) =
     (case get_minibatches (cfg st) (random_permutation ex) (np_random_state st) experience_size of
        Inl e \<Rightarrow> Some (Inl e)
      | Inr (minibatches, rng) \<Rightarrow>
          (case minibatch_loop ex buf minibatches
                  (st\<lparr>np_random_state := rng\<rparr>, kl_old_mean, num_sgd_steps) of
             None \<Rightarrow> None
           | Some (Inl e) \<Rightarrow> Some (Inl e)
           | Some (Inr acc) \<Rightarrow> epoch_loop ex buf experience_size epochs acc))"

text \<open>The epochs of \<^verbatim>\<open>_train\<close>, from \<^verbatim>\<open>kl_old_mean = 0.0\<close> and \<^verbatim>\<open>num_sgd_steps = 0\<close>.\<close>

definition train_epochs ::
    "('m, 'o) externals \<Rightarrow> ('m, 'o) learner \<Rightarrow> buffer \<Rightarrow> int
       \<Rightarrow> (error + (('m, 'o) learner \<times> scalar \<times> nat)) option" where
  "train_epochs ex st buf experience_size =
     epoch_loop ex buf experience_size (nat (ppo_epochs (cfg st))) (st, Python_float (Fin 0), 0)"

text \<open>
  The adjustment of the KL-penalty coefficient that ends \<^verbatim>\<open>_train\<close>. \<^verbatim>\<open>kl_coeff\<close> and
  \<^verbatim>\<open>target_kl\<close> are Python floats, the factor \<^verbatim>\<open>1.5\<close> is a float as it stands, and neither
  division has a zero divisor.
\<close>

definition adjust_kl_coeff :: "arith \<Rightarrow> ('m, 'o) learner \<Rightarrow> scalar \<Rightarrow> ('m, 'o) learner" where
  "adjust_kl_coeff A st kl_old_mean =
     (let k1 =
            (if scalar_greater A kl_old_mean (Fin (target_kl (cfg st)))
             then fl_mul (float64 A) (kl_coeff st) (Fin 1.5)
             else if scalar_less A kl_old_mean
                       (fl_div (float64 A) (Fin (target_kl (cfg st))) (Fin 2))
             then fl_div (float64 A) (kl_coeff st) (Fin 1.5)
             else kl_coeff st)
      in st\<lparr>kl_coeff := py_max k1 (py_literal A (1 / 1000000))\<rparr>)"

definition train ::
    "('m, 'o) externals \<Rightarrow> ('m, 'o) learner \<Rightarrow> buffer \<Rightarrow> int
       \<Rightarrow> (error + ('m, 'o) learner) option" where
  "train ex st buf experience_size =
     (case train_epochs ex st buf experience_size of
        None \<Rightarrow> None
      | Some (Inl e) \<Rightarrow> Some (Inl e)
      | Some (Inr (st', kl_old_mean, num_sgd_steps)) \<Rightarrow>
          Some (Inr (adjust_kl_coeff (floats ex) st' kl_old_mean)))"

subsection \<open>The training thread (\<^verbatim>\<open>_update_pbt\<close>, \<^verbatim>\<open>_broadcast_weights\<close>, \<^verbatim>\<open>_process_training_data\<close>)\<close>

fun apply_cfg_assign :: "cfg_assign \<Rightarrow> config \<Rightarrow> config" where
  "apply_cfg_assign (Set_macro_batch v) c = c\<lparr>macro_batch := v\<rparr>"
| "apply_cfg_assign (Set_rollout v) c = c\<lparr>rollout := v\<rparr>"
| "apply_cfg_assign (Set_recurrence v) c = c\<lparr>recurrence := v\<rparr>"
| "apply_cfg_assign (Set_batch_size v) c = c\<lparr>batch_size := v\<rparr>"
| "apply_cfg_assign (Set_max_policy_lag v) c = c\<lparr>max_policy_lag := v\<rparr>"
| "apply_cfg_assign (Set_ppo_epochs v) c = c\<lparr>ppo_epochs := v\<rparr>"
| "apply_cfg_assign (Set_keep_checkpoints v) c = c\<lparr>keep_checkpoints := v\<rparr>"
| "apply_cfg_assign (Set_target_kl v) c = c\<lparr>target_kl := v\<rparr>"
| "apply_cfg_assign (Set_gamma v) c = c\<lparr>gamma := v\<rparr>"
| "apply_cfg_assign (Set_with_pbt v) c = c\<lparr>with_pbt := v\<rparr>"
| "apply_cfg_assign (Set_learning_rate v) c = c\<lparr>learning_rate := v\<rparr>"
| "apply_cfg_assign (Set_adam_beta1 v) c = c\<lparr>adam_beta1 := v\<rparr>"
| "apply_cfg_assign (Set_adam_beta2 v) c = c\<lparr>adam_beta2 := v\<rparr>"

definition update_pbt :: "('m, 'o) learner \<Rightarrow> error + ('m, 'o) learner" where
  "update_pbt st =
     (case (case load_policy_id st of
              None \<Rightarrow> Inr st
            | Some pid \<Rightarrow>
                if \<not> with_pbt (cfg st) then Inl AssertionError
                else (case load_from_checkpoint st pid of
                        Inl e \<Rightarrow> Inl e
                      | Inr st' \<Rightarrow> Inr (st'\<lparr>load_policy_id := None\<rparr>))) of
        Inl e \<Rightarrow> Inl e
      | Inr st1 \<Rightarrow>
          (case new_cfg st1 of
             None \<Rightarrow> Inr st1
           | Some assigns \<Rightarrow>
               let c = fold apply_cfg_assign assigns (cfg st1)
               in Inr (st1\<lparr>cfg := c,
                           optimizer := (optimizer st1)
                             \<lparr>opt_lr := learning_rate c,
                              opt_betas := (adam_beta1 c, adam_beta2 c)\<rparr>,
                           new_cfg := None\<rparr>)))"

definition broadcast_weights :: "('m, 'o) learner \<Rightarrow> pynum \<Rightarrow> ('m, 'o) learner" where
  "broadcast_weights st rate =
     (let state_dict = actor_critic st;
          policy_version = train_step st;
          weight_update = (policy_version, state_dict, rate)
      in st\<lparr>policy_worker_queues := policy_worker_queues st @ [weight_update]\<rparr>)"

text \<open>\<^verbatim>\<open>buffer.rewards.shape[0]\<close>: the time steps of all rollouts of the buffer.\<close>

definition buffer_size :: "buffer \<Rightarrow> int" where
  "buffer_size buf = int (length (concat (map policy_version buf)))"

definition process_training_data ::
    "('m, 'o) externals \<Rightarrow> ('m, 'o) learner \<Rightarrow> buffer \<times> int \<times> int
       \<Rightarrow> (error + ('m, 'o) learner) option" where
  "process_training_data ex st data =
     (case data of (buf, samples, steps) \<Rightarrow>
        let st1 = st\<lparr>env_steps := env_steps st + steps\<rparr>;
            experience_size = buffer_size buf
        in case discarding_rate (discarded_experience_over_time st1) of
             Inl e \<Rightarrow> Some (Inl e)
           | Inr rate \<Rightarrow>
               if with_training st1 then
                 (case update_pbt st1 of
                    Inl e \<Rightarrow> Some (Inl e)
                  | Inr st2 \<Rightarrow>
                      (case train ex st2 buf experience_size of
                         None \<Rightarrow> None
                       | Some (Inl e) \<Rightarrow> Some (Inl e)
                       | Some (Inr st3) \<Rightarrow> Some (Inr (broadcast_weights st3 rate))))
               else Some (Inr st1))"

text \<open>
  \<^verbatim>\<open>initialize\<close>, after the model and the optimizer are built: the restore from the learner's
  own checkpoints and the first broadcast.
\<close>

definition initialize :: "('m, 'o) learner \<Rightarrow> error + ('m, 'o) learner" where
  "initialize st =
     (case load_from_checkpoint st (policy_id st) of
        Inl e \<Rightarrow> Inl e
      | Inr st' \<Rightarrow>
          (case discarding_rate (discarded_experience_over_time st') of
             Inl e \<Rightarrow> Inl e
           | Inr rate \<Rightarrow> Inr (broadcast_weights st' rate)))"

subsection \<open>A run of the training thread\<close>

datatype pbt_task = SAVE_MODEL int | LOAD_MODEL int int | UPDATE_CFG int "cfg_assign list"

fun process_pbt_task :: "('m, 'o) learner \<Rightarrow> pbt_task \<Rightarrow> error + ('m, 'o) learner" where
  "process_pbt_task st (SAVE_MODEL pid) =
     (if pid \<noteq> policy_id st then Inl AssertionError
      else Inr (st\<lparr>should_save_model := True\<rparr>))"
| "process_pbt_task st (LOAD_MODEL pid new_policy_id) =
     (if pid \<noteq> policy_id st then Inl AssertionError
      else Inr (st\<lparr>load_policy_id := Some new_policy_id\<rparr>))"
| "process_pbt_task st (UPDATE_CFG pid assigns) =
     (if pid \<noteq> policy_id st then Inl AssertionError
      else Inr (st\<lparr>new_cfg := Some assigns\<rparr>))"

fun process_pbt_tasks :: "('m, 'o) learner \<Rightarrow> pbt_task list \<Rightarrow> error + ('m, 'o) learner" where
  "process_pbt_tasks st [] = Inr st"
| "process_pbt_tasks st (task # tasks) =
     (case process_pbt_task st task of
        Inl e \<Rightarrow> Inl e
      | Inr st' \<Rightarrow> process_pbt_tasks st' tasks)"

text \<open>
  What the learner's main loop does between two batches of the training thread, as far as
  the training thread sees it: the PBT tasks it latched, the sliding window of discard
  samples as it stands, and the batch handed over through the experience queue.
\<close>

record event =
  ev_pbt_tasks :: "pbt_task list"
  ev_window :: window
  ev_data :: "buffer \<times> int \<times> int"

fun run_batches ::
    "('m, 'o) externals \<Rightarrow> event list \<Rightarrow> ('m, 'o) learner \<Rightarrow> (error + ('m, 'o) learner) option" where
  "run_batches ex [] st = Some (Inr st)"
| "run_batches ex (ev # evs) st =
     (case process_pbt_tasks st (ev_pbt_tasks ev) of
        Inl e \<Rightarrow> Some (Inl e)
      | Inr st1 \<Rightarrow>
          (case process_training_data ex
                  (st1\<lparr>discarded_experience_over_time := ev_window ev\<rparr>) (ev_data ev) of
             None \<Rightarrow> None
           | Some (Inl e) \<Rightarrow> Some (Inl e)
           | Some (Inr st2) \<Rightarrow> run_batches ex evs st2))"

definition learner_run ::
    "('m, 'o) externals \<Rightarrow> event list \<Rightarrow> ('m, 'o) learner \<Rightarrow> (error + ('m, 'o) learner) option" where
  "learner_run ex evs st =
     (case initialize st of
        Inl e \<Rightarrow> Some (Inl e)
      | Inr st1 \<Rightarrow> run_batches ex evs st1)"

text \<open>
  A PBT task that neither makes the learner reload its own checkpoints nor sets
  \<^verbatim>\<open>ppo_epochs\<close> below one.
\<close>

fun keeps_epochs :: "cfg_assign \<Rightarrow> bool" where
  "keeps_epochs (Set_ppo_epochs v) = (v \<ge> 1)"
| "keeps_epochs a = True"

fun forward_task :: "int \<Rightarrow> pbt_task \<Rightarrow> bool" where
  "forward_task own (SAVE_MODEL pid) = True"
| "forward_task own (LOAD_MODEL pid new_policy_id) = (new_policy_id \<noteq> own)"
| "forward_task own (UPDATE_CFG pid assigns) = list_all keeps_epochs assigns"

definition example_externals :: "(nat, nat) externals" where
  "example_externals =
     \<lparr>floats = example_arith,
      save_rate_decay_at = (\<lambda>ts. 5000),
      random_permutation = (\<lambda>s xs. rev xs),
      minibatch_update =
        (\<lambda>st buf indices. Inr (Suc (actor_critic st), optimizer st, Fin (3 / 100)))\<rparr>"

text \<open>The fields that saving and the optimisation of minibatches leave alone.\<close>

definition training_frame :: "('m, 'o) learner \<Rightarrow> ('m, 'o) learner \<Rightarrow> bool" where
  "training_frame st st' \<longleftrightarrow>
     policy_id st' = policy_id st \<and> cfg st' = cfg st \<and> kl_coeff st' = kl_coeff st
     \<and> env_steps st' = env_steps st \<and> load_policy_id st' = load_policy_id st
     \<and> new_cfg st' = new_cfg st \<and> with_training st' = with_training st
     \<and> policy_worker_queues st' = policy_worker_queues st"

text \<open>
  The conditions a learner of policy \<open>own\<close> keeps between batches when every PBT task is a
  \<open>forward_task\<close>: no reload of its own checkpoints is latched, \<^verbatim>\<open>ppo_epochs\<close> is at least one
  and stays so under the latched configuration, and the versions broadcast so far increase
  strictly and do not exceed \<open>train_step\<close>.
\<close>

definition run_invariant :: "int \<Rightarrow> ('m, 'o) learner \<Rightarrow> bool" where
  "run_invariant own st \<longleftrightarrow>
     policy_id st = own \<and> load_policy_id st \<noteq> Some own \<and> ppo_epochs (cfg st) \<ge> 1
     \<and> (case new_cfg st of None \<Rightarrow> True | Some assigns \<Rightarrow> list_all keeps_epochs assigns)
     \<and> sorted_wrt (<) (map fst (policy_worker_queues st))
     \<and> list_all (\<lambda>v. v \<le> train_step st) (map fst (policy_worker_queues st))"

text \<open>The versions a run has broadcast when it returns, and the state it returns.\<close>

definition broadcast_versions ::
    "('m, 'o) externals \<Rightarrow> event list \<Rightarrow> ('m, 'o) learner \<Rightarrow> int list option" where
  "broadcast_versions ex evs st =
     (case learner_run ex evs st of
        Some (Inr st') \<Rightarrow> Some (map fst (policy_worker_queues st'))
      | _ \<Rightarrow> None)"

definition example_event :: "pbt_task list \<Rightarrow> event" where
  "example_event tasks =
     \<lparr>ev_pbt_tasks = tasks, ev_window = [],
      ev_data = ([example_rollout 0 10, example_rollout 1 10], 2, 8)\<rparr>"

section \<open>Properties\<close>

subsection \<open>Discarding rate\<close>

text \<open>
  Claim C10, as amended. \<^verbatim>\<open>_discarding_rate\<close> returns a number equal to zero exactly when the
  sliding window is empty, where it is the integer \<open>0\<close> of the guard, or when the first and the
  last sample were taken at different times and carry the same count, where it is the float
  \<open>0.0\<close> of the quotient. The guard is taken by the empty window only. A window of exactly one
  sample has equal first and last entries, the time delta is exactly zero and the division
  raises \<^verbatim>\<open>ZeroDivisionError\<close>; such a window is what the first recorded sample leaves behind.
  Every non-empty window raises when its first and last time stamps agree and returns the
  float quotient otherwise.
\<close>

theorem discarding_rate_zero:
  "((\<exists>v. discarding_rate w = Inr v \<and> pynum_value v = 0)
       \<longleftrightarrow> w = [] \<or> (fst (last w) \<noteq> fst (hd w) \<and> snd (last w) = snd (hd w)))
   \<and> (discarding_rate w = Inr (PyInt 0) \<longleftrightarrow> w = [])
   \<and> discarding_rate [s] = Inl ZeroDivisionError
   \<and> (now - timer > 1 \<longrightarrow>
        discarding_rate (snd (experience_collection_rate_stats now timer [] n))
          = Inl ZeroDivisionError)
   \<and> (w \<noteq> [] \<longrightarrow>
        discarding_rate w =
          (if fst (last w) = fst (hd w) then Inl ZeroDivisionError
           else Inr (PyFloat (real_of_int (snd (last w) - snd (hd w)) / (fst (last w) - fst (hd w))))))"
  by (auto simp: discarding_rate_def py_truediv_def Let_def
        experience_collection_rate_stats_def deque_append_def split: sum.splits)

text \<open>
  The claim as stated fails for a window of two samples taken two seconds apart between which
  nothing was discarded: the window is not empty and the rate returned is \<open>0.0\<close>.
\<close>

theorem discarding_rate_unchanged_count_counterexample:
  "discarding_rate [(1, 5), (3, 5)] = Inr (PyFloat 0)
   \<and> pynum_value (PyFloat 0) = 0
   \<and> [(1, 5), (3, 5)] \<noteq> ([] :: window)"
  by (simp add: discarding_rate_def py_truediv_def)

theorem discarding_rate_zero_witness:
  "discarding_rate [] = Inr (PyInt 0)
   \<and> discarding_rate [(5, 3)] = Inl ZeroDivisionError
   \<and> discarding_rate (snd (experience_collection_rate_stats 12 10 [] 7)) = Inl ZeroDivisionError
   \<and> discarding_rate [(1, 0), (3, 4)] = Inr (PyFloat 2)
   \<and> (\<exists>v. discarding_rate [(2, 7), (4, 7), (6, 7)] = Inr v \<and> pynum_value v = 0)"
  using discarding_rate_zero [of "[]" "(5, 3)" 12 10 7]
        discarding_rate_zero [of "[(1, 0), (3, 4)]" "(5, 3)" 12 10 7]
        discarding_rate_zero [of "[(2, 7), (4, 7), (6, 7)]" "(5, 3)" 12 10 7]
  by simp

subsection \<open>Rollout intake\<close>

lemma mark_free_frame:
  "mark_rollout_buffer_free st r = Inr st' \<Longrightarrow> \<exists>tbr. st' = st\<lparr>traj_buffer_ready := tbr\<rparr>"
  by (auto simp: mark_rollout_buffer_free_def split: option.splits sum.splits)

lemma mark_all_free_frame:
  "mark_all_free st rs = Inr st' \<Longrightarrow> \<exists>tbr. st' = st\<lparr>traj_buffer_ready := tbr\<rparr>"
proof (induction rs arbitrary: st)
  case Nil
  then have "st' = st\<lparr>traj_buffer_ready := traj_buffer_ready st\<rparr>" by simp
  then show ?case by blast
next
  case (Cons r rs)
  then obtain st1 where m: "mark_rollout_buffer_free st r = Inr st1"
    and a: "mark_all_free st1 rs = Inr st'"
    by (auto split: sum.splits)
  from mark_free_frame[OF m] obtain t1 where t1: "st1 = st\<lparr>traj_buffer_ready := t1\<rparr>" by blast
  from Cons.IH[OF a] obtain t2 where "st' = st1\<lparr>traj_buffer_ready := t2\<rparr>" by blast
  with t1 have "st' = st\<lparr>traj_buffer_ready := t2\<rparr>" by simp
  then show ?case by blast
qed

lemma ready_bit_marked:
  "mark_rollout_buffer_free st r = Inr st' \<Longrightarrow> ready_bit st' r = Some 1"
  by (auto simp: mark_rollout_buffer_free_def ready_bit_def tensor_set_def tensor_get_def tensor_index_def
      split: option.splits sum.splits prod.splits)

lemma ready_bit_kept:
  "mark_rollout_buffer_free st r' = Inr st' \<Longrightarrow> ready_bit st r = Some 1 \<Longrightarrow> ready_bit st' r = Some 1"
  by (auto simp: mark_rollout_buffer_free_def ready_bit_def tensor_set_def tensor_get_def tensor_index_def
      split: option.splits sum.splits prod.splits if_splits)

lemma mark_all_free_bits:
  "mark_all_free st rs = Inr st' \<Longrightarrow>
     (\<forall>r\<in>set rs. ready_bit st' r = Some 1) \<and>
     (\<forall>r. ready_bit st r = Some 1 \<longrightarrow> ready_bit st' r = Some 1)"
proof (induction rs arbitrary: st)
  case Nil
  then show ?case by simp
next
  case (Cons r rs)
  then obtain st1 where m: "mark_rollout_buffer_free st r = Inr st1"
    and a: "mark_all_free st1 rs = Inr st'"
    by (auto split: sum.splits)
  from Cons.IH[OF a] ready_bit_marked[OF m] ready_bit_kept[OF m]
  show ?case by auto
qed

lemma discard_loop_result:
  "discard_loop pv st k rs = Inr (st', k') \<Longrightarrow>
     k' = k + length (takeWhile (\<lambda>r. pv - Min (set (policy_version r)) \<ge> max_policy_lag (cfg st)) rs)
     \<and> mark_all_free st
          (takeWhile (\<lambda>r. pv - Min (set (policy_version r)) \<ge> max_policy_lag (cfg st)) rs) = Inr st'"
proof (induction rs arbitrary: st k)
  case Nil
  then show ?case by simp
next
  case (Cons r rs)
  let ?P = "\<lambda>c r. pv - Min (set (policy_version r)) \<ge> max_policy_lag c"
  from Cons.prems obtain m where m: "tensor_min (policy_version r) = Inr m"
    by (auto split: sum.splits)
  then have mv: "m = Min (set (policy_version r))"
    by (auto simp: tensor_min_def split: if_splits)
  show ?case
  proof (cases "?P (cfg st) r")
    case True
    with Cons.prems m mv obtain st1 where f: "mark_rollout_buffer_free st r = Inr st1"
      and l: "discard_loop pv st1 (k + 1) rs = Inr (st', k')"
      by (auto split: sum.splits)
    from mark_free_frame[OF f] have c: "cfg st1 = cfg st" by auto
    from Cons.IH[OF l] c True f show ?thesis by simp
  next
    case False
    with Cons.prems m mv show ?thesis by simp
  qed
qed

lemma discard_loop_stops:
  "pv - Min (set (policy_version x)) < max_policy_lag (cfg st) \<Longrightarrow> policy_version x \<noteq> [] \<Longrightarrow>
     discard_loop pv st k (xs @ x # ys) = discard_loop pv st k (xs @ x # ys')"
proof (induction xs arbitrary: st k)
  case Nil
  then show ?case by (simp add: tensor_min_def)
next
  case (Cons a xs)
  show ?case
  proof (cases "mark_rollout_buffer_free st a")
    case (Inl e)
    then show ?thesis by (simp split: sum.splits)
  next
    case (Inr st1)
    from mark_free_frame[OF Inr] have "cfg st1 = cfg st" by auto
    with Cons.prems have "discard_loop pv st1 (k + 1) (xs @ x # ys) = discard_loop pv st1 (k + 1) (xs @ x # ys')"
      by (intro Cons.IH) simp_all
    with Inr show ?thesis by (simp split: sum.splits)
  qed
qed

lemma py_slice_append: "py_slice_to n xs @ py_slice_from n xs = xs"
  by (simp add: py_slice_to_def py_slice_from_def)

lemma is_stale_fun:
  "is_stale st = (\<lambda>r. train_step st - Min (set (policy_version r)) \<ge> max_policy_lag (cfg st))"
  by (rule ext) (simp add: is_stale_def)

lemma process_macro_batch_success:
  "process_macro_batch st rs = Inr st' \<Longrightarrow>
     rs \<noteq> [] \<and> (\<exists>st3. mark_all_free st rs = Inr st3 \<and>
        st' = st3\<lparr>experience_buffer_queue :=
                   experience_buffer_queue st3 @
                     [(rs, sum_list (map rollout_length rs), sum_list (map rollout_env_steps rs))]\<rparr>)"
  by (auto simp: process_macro_batch_def prepare_train_buffer_def Let_def
      split: option.splits sum.splits if_splits)

lemma process_rollouts_unfold:
  assumes "py_floordiv (macro_batch (cfg st)) (rollout (cfg st)) = Inr n"
    and "int (length rollouts) \<ge> n"
    and "discard_loop (train_step st) st 0 rollouts = Inr (st1, k)"
  shows "process_rollouts st rollouts =
     (if int (length (drop k rollouts)) \<ge> n then
        (case process_macro_batch
                (st1\<lparr>num_discarded_rollouts := num_discarded_rollouts st1 + int k\<rparr>)
                (py_slice_to n (drop k rollouts)) of
           Inl e \<Rightarrow> Inl e
         | Inr st3 \<Rightarrow> Inr (st3, py_slice_from n (drop k rollouts), True))
      else Inr (st1\<lparr>num_discarded_rollouts := num_discarded_rollouts st1 + int k\<rparr>,
                drop k rollouts, False))"
  using assms by (cases "k = 0") (simp_all add: process_rollouts_def py_slice_from_def Let_def cong: sum.case_cong)

lemma process_rollouts_success:
  assumes ok: "process_rollouts st rollouts = Inr (st', rest, wd)"
    and n: "py_floordiv (macro_batch (cfg st)) (rollout (cfg st)) = Inr n"
    and ge: "int (length rollouts) \<ge> n"
  shows "\<exists>st1 batch. mark_all_free st (takeWhile (is_stale st) rollouts) = Inr st1
      \<and> rollouts = takeWhile (is_stale st) rollouts @ batch @ rest
      \<and> (wd \<longrightarrow> batch \<noteq> [] \<and>
            (\<exists>st3. mark_all_free
                     (st1\<lparr>num_discarded_rollouts := num_discarded_rollouts st
                            + int (length (takeWhile (is_stale st) rollouts))\<rparr>) batch = Inr st3
                 \<and> st' = st3\<lparr>experience_buffer_queue := experience_buffer_queue st @
                     [(batch, sum_list (map rollout_length batch),
                       sum_list (map rollout_env_steps batch))]\<rparr>))
      \<and> (\<not> wd \<longrightarrow> batch = [] \<and>
            st' = st1\<lparr>num_discarded_rollouts := num_discarded_rollouts st
                            + int (length (takeWhile (is_stale st) rollouts))\<rparr>)"
proof -
  let ?D = "takeWhile (is_stale st) rollouts"
  from ok n ge obtain st1 k where dl: "discard_loop (train_step st) st 0 rollouts = Inr (st1, k)"
    by (auto simp: process_rollouts_def split: sum.splits)
  from discard_loop_result[OF dl] have k: "k = length ?D" and m: "mark_all_free st ?D = Inr st1"
    by (simp_all add: is_stale_fun)
  from mark_all_free_frame[OF m] have nd: "num_discarded_rollouts st1 = num_discarded_rollouts st"
    and q1: "experience_buffer_queue st1 = experience_buffer_queue st" by auto
  let ?st2 = "st1\<lparr>num_discarded_rollouts := num_discarded_rollouts st + int (length ?D)\<rparr>"
  have split: "rollouts = ?D @ drop k rollouts"
    unfolding k by (metis takeWhile_dropWhile_id dropWhile_eq_drop)
  note u = process_rollouts_unfold[OF n ge dl, unfolded nd k]
  show ?thesis
  proof (cases "int (length (drop k rollouts)) \<ge> n")
    case False
    with ok u k have "st' = ?st2" "rest = drop k rollouts" "\<not> wd" by auto
    with m split show ?thesis by (intro exI[of _ st1] exI[of _ "[]"]) auto
  next
    case True
    with ok u k obtain st3 where pm: "process_macro_batch ?st2 (py_slice_to n (drop k rollouts)) = Inr st3"
      and r: "st' = st3" "rest = py_slice_from n (drop k rollouts)" "wd"
      by (auto split: sum.splits)
    let ?batch = "py_slice_to n (drop k rollouts)"
    from process_macro_batch_success[OF pm] obtain st4 where ne: "?batch \<noteq> []"
      and m4: "mark_all_free ?st2 ?batch = Inr st4"
      and s3: "st3 = st4\<lparr>experience_buffer_queue := experience_buffer_queue st4 @
                     [(?batch, sum_list (map rollout_length ?batch),
                       sum_list (map rollout_env_steps ?batch))]\<rparr>"
      by blast
    from mark_all_free_frame[OF m4] q1 have "experience_buffer_queue st4 = experience_buffer_queue st"
      by auto
    with s3 have s3': "st3 = st4\<lparr>experience_buffer_queue := experience_buffer_queue st @
                     [(?batch, sum_list (map rollout_length ?batch),
                       sum_list (map rollout_env_steps ?batch))]\<rparr>" by simp
    have "rollouts = ?D @ ?batch @ rest"
      using split r(2) py_slice_append[of n "drop k rollouts"] by simp
    with m ne m4 s3' r show ?thesis
      by (intro exI[of _ st1] exI[of _ ?batch]) auto
  qed
qed

lemma admitted_cases:
  assumes "admitted_rollouts st rollouts \<noteq> []"
  shows "\<exists>rest. takeWhile (is_stale st) rollouts @ admitted_rollouts st rollouts @ rest = rollouts"
proof -
  from assms obtain st' rest where ok: "process_rollouts st rollouts = Inr (st', rest, True)"
    and a: "admitted_rollouts st rollouts = fst (last (experience_buffer_queue st'))"
    by (auto simp: admitted_rollouts_def split: sum.splits if_splits)
  from ok obtain n where n: "py_floordiv (macro_batch (cfg st)) (rollout (cfg st)) = Inr n"
    by (auto simp: process_rollouts_def split: sum.splits)
  with ok have ge: "int (length rollouts) \<ge> n"
    by (auto simp: process_rollouts_def split: if_splits)
  from process_rollouts_success[OF ok n ge] obtain batch st3
    where sp: "rollouts = takeWhile (is_stale st) rollouts @ batch @ rest"
      and q: "st' = st3\<lparr>experience_buffer_queue := experience_buffer_queue st @
                     [(batch, sum_list (map rollout_length batch),
                       sum_list (map rollout_env_steps batch))]\<rparr>"
    by auto
  from q a have "admitted_rollouts st rollouts = batch" by simp
  with sp show ?thesis by metis
qed

text \<open>
  Claim C1, as amended. The first rollout of every macro-batch that \<^verbatim>\<open>_process_rollouts\<close> forms
  satisfies \<open>train_step - min(policy_version) < max_policy_lag\<close>; and when no stale rollout
  sits behind a non-stale one in the pending list, every rollout of the macro-batch does.
\<close>

theorem admitted_rollouts_fresh:
  "(admitted_rollouts st rollouts \<noteq> [] \<longrightarrow> \<not> is_stale st (hd (admitted_rollouts st rollouts)))
   \<and> ((\<forall>i j. i < j \<longrightarrow> j < length rollouts \<longrightarrow> is_stale st (rollouts ! j)
              \<longrightarrow> is_stale st (rollouts ! i))
        \<longrightarrow> (\<forall>r \<in> set (admitted_rollouts st rollouts). \<not> is_stale st r))"
proof (cases "admitted_rollouts st rollouts = []")
  case True
  then show ?thesis by simp
next
  case False
  let ?D = "takeWhile (is_stale st) rollouts"
  let ?A = "admitted_rollouts st rollouts"
  from admitted_cases[OF False] obtain rest where sp: "?D @ ?A @ rest = rollouts" by blast
  then have dw: "dropWhile (is_stale st) rollouts = ?A @ rest"
    by (metis takeWhile_dropWhile_id same_append_eq)
  with False have hd: "\<not> is_stale st (hd ?A)"
    using hd_dropWhile[of "is_stale st" rollouts] by auto
  have "\<not> is_stale st r"
    if mono: "\<forall>i j. i < j \<longrightarrow> j < length rollouts \<longrightarrow> is_stale st (rollouts ! j)
              \<longrightarrow> is_stale st (rollouts ! i)" and r: "r \<in> set ?A" for r
  proof
    assume st: "is_stale st r"
    from r obtain k where k: "k < length ?A" "?A ! k = r" by (auto simp: in_set_conv_nth)
    have at: "rollouts ! (length ?D + k) = r" "length ?D + k < length rollouts"
      using k sp by (metis nth_append_length_plus nth_append, metis add_less_cancel_left length_append trans_less_add1)
    have h0: "rollouts ! (length ?D) = hd ?A"
      using False sp by (metis append_Nil2 hd_append2 hd_conv_nth length_greater_0_conv nth_append_length_plus add.right_neutral nth_append)
    show False
    proof (cases "k = 0")
      case True
      with at h0 st hd show False by simp
    next
      case False
      with mono[rule_format, of "length ?D" "length ?D + k"] at st
      have "is_stale st (rollouts ! (length ?D))" by simp
      with h0 hd show False by simp
    qed
  qed
  with hd show ?thesis by blast
qed

lemmas eval_intake =
  admitted_rollouts_def process_rollouts_def py_floordiv_def tensor_min_def
  mark_rollout_buffer_free_def tensor_set_def tensor_get_def tensor_index_def norm_index_def
  process_macro_batch_def prepare_train_buffer_def assert_mod_zero_def
  py_slice_from_def py_slice_to_def example_learner_def example_config_def example_rollout_def
  is_stale_def ready_bit_def Let_def

text \<open>
  The claim as stated fails: with \<open>train_step = 10\<close> and \<open>max_policy_lag = 5\<close>, a pending list
  of a fresh rollout followed by a stale one is admitted whole, because the scan leaves its
  loop at the fresh head.
\<close>

theorem admitted_rollouts_stale_counterexample:
  "example_rollout 1 0 \<in> set (admitted_rollouts example_learner [example_rollout 0 10, example_rollout 1 0])
   \<and> train_step example_learner - Min (set (policy_version (example_rollout 1 0)))
        \<ge> max_policy_lag (cfg example_learner)"
  by (simp add: eval_intake)

text \<open>A pending list whose only stale rollout is its head.\<close>

theorem admitted_rollouts_fresh_witness:
  "admitted_rollouts example_learner [example_rollout 0 0, example_rollout 1 10, example_rollout 2 8]
     = [example_rollout 1 10, example_rollout 2 8]
   \<and> \<not> is_stale example_learner (example_rollout 1 10)
   \<and> \<not> is_stale example_learner (example_rollout 2 8)"
proof -
  let ?rs = "[example_rollout 0 0, example_rollout 1 10, example_rollout 2 8]"
  have a: "admitted_rollouts example_learner ?rs = [example_rollout 1 10, example_rollout 2 8]"
    by (simp add: eval_intake)
  have s: "is_stale example_learner (example_rollout k v) \<longleftrightarrow> v \<le> 5" for k v
    by (auto simp: is_stale_def example_learner_def example_config_def example_rollout_def)
  have h: "\<forall>i j. i < j \<longrightarrow> j < length ?rs \<longrightarrow> is_stale example_learner (?rs ! j)
              \<longrightarrow> is_stale example_learner (?rs ! i)"
    by (auto simp: s nth_Cons' less_Suc_eq numeral_3_eq_3)
  from admitted_rollouts_fresh[of example_learner ?rs] h
  have "\<forall>r \<in> set (admitted_rollouts example_learner ?rs). \<not> is_stale example_learner r"
    by blast
  with a show ?thesis by simp
qed

text \<open>
  Claim C2. When at least \<open>rollouts_in_macro_batch = macro_batch // rollout\<close> rollouts are
  pending, a returning call of \<^verbatim>\<open>_process_rollouts\<close> removes exactly the longest prefix of stale
  rollouts: the pending list is that prefix, then the macro-batch formed (if any), then the
  list returned; the readiness bit of every rollout of the prefix is 1 afterwards;
  \<^verbatim>\<open>num_discarded_rollouts\<close> grows by the length of the prefix. With fewer pending rollouts
  the state and the list are returned unchanged. The scan stops at the first non-stale
  rollout: what follows it has no influence on the scan's outcome.
\<close>

theorem process_rollouts_discards_stale_head:
  assumes ok: "process_rollouts st rollouts = Inr (st', rest, work_done)"
  shows "rollout (cfg st) \<noteq> 0
   \<and> (int (length rollouts) \<ge> macro_batch (cfg st) div rollout (cfg st) \<longrightarrow>
        (\<exists>batch. rollouts = takeWhile (is_stale st) rollouts @ batch @ rest
           \<and> (\<forall>r \<in> set (takeWhile (is_stale st) rollouts). ready_bit st' r = Some 1)
           \<and> num_discarded_rollouts st' =
               num_discarded_rollouts st + int (length (takeWhile (is_stale st) rollouts))
           \<and> experience_buffer_queue st' = experience_buffer_queue st @
               (if work_done
                then [(batch, sum_list (map rollout_length batch),
                       sum_list (map rollout_env_steps batch))]
                else [])
           \<and> (batch = [] \<longleftrightarrow> \<not> work_done)))
   \<and> (int (length rollouts) < macro_batch (cfg st) div rollout (cfg st) \<longrightarrow>
        st' = st \<and> rest = rollouts \<and> \<not> work_done)
   \<and> (\<forall>x xs ys ys'. policy_version x \<noteq> [] \<longrightarrow> \<not> is_stale st x \<longrightarrow>
        discard_loop (train_step st) st 0 (xs @ x # ys)
          = discard_loop (train_step st) st 0 (xs @ x # ys'))"
proof -
  let ?n = "macro_batch (cfg st) div rollout (cfg st)"
  let ?D = "takeWhile (is_stale st) rollouts"
  from ok have nz: "rollout (cfg st) \<noteq> 0"
    and n: "py_floordiv (macro_batch (cfg st)) (rollout (cfg st)) = Inr ?n"
    by (auto simp: process_rollouts_def py_floordiv_def split: if_splits)
  have few: "st' = st \<and> rest = rollouts \<and> \<not> work_done" if "int (length rollouts) < ?n"
    using ok n that by (simp add: process_rollouts_def)
  have many: "\<exists>batch. rollouts = ?D @ batch @ rest
           \<and> (\<forall>r \<in> set ?D. ready_bit st' r = Some 1)
           \<and> num_discarded_rollouts st' = num_discarded_rollouts st + int (length ?D)
           \<and> experience_buffer_queue st' = experience_buffer_queue st @
               (if work_done
                then [(batch, sum_list (map rollout_length batch),
                       sum_list (map rollout_env_steps batch))]
                else [])
           \<and> (batch = [] \<longleftrightarrow> \<not> work_done)"
    if ge: "int (length rollouts) \<ge> ?n"
  proof -
    let ?upd = "\<lambda>s::('a, 'b) learner. s\<lparr>num_discarded_rollouts := num_discarded_rollouts st + int (length ?D)\<rparr>"
    from process_rollouts_success[OF ok n ge] obtain st1 batch
      where m: "mark_all_free st ?D = Inr st1"
        and sp: "rollouts = ?D @ batch @ rest"
        and w: "work_done \<Longrightarrow> batch \<noteq> [] \<and>
            (\<exists>st3. mark_all_free (?upd st1) batch = Inr st3
                 \<and> st' = st3\<lparr>experience_buffer_queue := experience_buffer_queue st @
                     [(batch, sum_list (map rollout_length batch),
                       sum_list (map rollout_env_steps batch))]\<rparr>)"
        and nw: "\<not> work_done \<Longrightarrow> batch = [] \<and> st' = ?upd st1"
      by blast
    from mark_all_free_bits[OF m] have b1: "\<forall>r\<in>set ?D. ready_bit st1 r = Some 1" by blast
    from mark_all_free_frame[OF m] have f1: "num_discarded_rollouts st1 = num_discarded_rollouts st"
      "experience_buffer_queue st1 = experience_buffer_queue st" by auto
    have rb: "ready_bit (?upd s) r = ready_bit s r" for s r
      by (simp add: ready_bit_def)
    show ?thesis
    proof (cases work_done)
      case False
      from nw[OF False] b1 f1 sp False show ?thesis
        by (intro exI[of _ batch]) (simp add: rb)
    next
      case True
      from w[OF True] obtain st3 where ne: "batch \<noteq> []"
        and m3: "mark_all_free (?upd st1) batch = Inr st3"
        and s': "st' = st3\<lparr>experience_buffer_queue := experience_buffer_queue st @
                     [(batch, sum_list (map rollout_length batch),
                       sum_list (map rollout_env_steps batch))]\<rparr>" by blast
      from mark_all_free_bits[OF m3] b1 have "\<forall>r\<in>set ?D. ready_bit st3 r = Some 1"
        by (simp add: rb)
      then have b3: "\<forall>r\<in>set ?D. ready_bit st' r = Some 1"
        by (simp add: s' ready_bit_def)
      from mark_all_free_frame[OF m3] have "num_discarded_rollouts st3 = num_discarded_rollouts st + int (length ?D)"
        by auto
      with s' have nd: "num_discarded_rollouts st' = num_discarded_rollouts st + int (length ?D)" by simp
      from s' have q: "experience_buffer_queue st' = experience_buffer_queue st @
                     [(batch, sum_list (map rollout_length batch),
                       sum_list (map rollout_env_steps batch))]" by simp
      from sp b3 nd q ne True show ?thesis
        by (intro exI[of _ batch]) simp
    qed
  qed
  have stop: "discard_loop (train_step st) st 0 (xs @ x # ys)
          = discard_loop (train_step st) st 0 (xs @ x # ys')"
    if "policy_version x \<noteq> []" "\<not> is_stale st x" for x xs ys ys'
    using that by (intro discard_loop_stops) (simp_all add: is_stale_def)
  from nz few many stop show ?thesis by blast
qed

text \<open>Two stale rollouts at the head, then the two rollouts of the macro-batch.\<close>

theorem process_rollouts_discards_stale_head_witness:
  "\<exists>st'. process_rollouts example_learner
            [example_rollout 0 0, example_rollout 1 3, example_rollout 2 10, example_rollout 3 8]
          = Inr (st', [], True)
      \<and> takeWhile (is_stale example_learner)
            [example_rollout 0 0, example_rollout 1 3, example_rollout 2 10, example_rollout 3 8]
          = [example_rollout 0 0, example_rollout 1 3]
      \<and> ready_bit st' (example_rollout 0 0) = Some 1
      \<and> ready_bit st' (example_rollout 1 3) = Some 1
      \<and> num_discarded_rollouts st' = 2
      \<and> experience_buffer_queue st' = [([example_rollout 2 10, example_rollout 3 8], 2, 8)]"
proof -
  let ?rs = "[example_rollout 0 0, example_rollout 1 3, example_rollout 2 10, example_rollout 3 8]"
  have "\<exists>st'. process_rollouts example_learner ?rs = Inr (st', [], True)"
    by (simp add: eval_intake)
  then obtain st' where ok: "process_rollouts example_learner ?rs = Inr (st', [], True)" ..
  have tw: "takeWhile (is_stale example_learner) ?rs = [example_rollout 0 0, example_rollout 1 3]"
    by (simp add: is_stale_def example_learner_def example_config_def example_rollout_def)
  have c: "macro_batch (cfg example_learner) div rollout (cfg example_learner) = 2"
    "num_discarded_rollouts example_learner = 0" "experience_buffer_queue example_learner = []"
    by (simp_all add: example_learner_def example_config_def)
  from process_rollouts_discards_stale_head[OF ok] have
    "\<exists>batch. ?rs = takeWhile (is_stale example_learner) ?rs @ batch @ []
           \<and> (\<forall>r \<in> set (takeWhile (is_stale example_learner) ?rs). ready_bit st' r = Some 1)
           \<and> num_discarded_rollouts st' =
               num_discarded_rollouts example_learner + int (length (takeWhile (is_stale example_learner) ?rs))
           \<and> experience_buffer_queue st' = experience_buffer_queue example_learner @
               (if True
                then [(batch, sum_list (map rollout_length batch),
                       sum_list (map rollout_env_steps batch))]
                else [])
           \<and> (batch = [] \<longleftrightarrow> \<not> True)"
    by (simp add: c)
  then obtain batch where b: "?rs = [example_rollout 0 0, example_rollout 1 3] @ batch"
     and r: "\<forall>r \<in> set [example_rollout 0 0, example_rollout 1 3]. ready_bit st' r = Some 1"
     and n: "num_discarded_rollouts st' = 2"
     and q: "experience_buffer_queue st' = [(batch, sum_list (map rollout_length batch),
                       sum_list (map rollout_env_steps batch))]"
    unfolding tw c by auto
  from b have "batch = [example_rollout 2 10, example_rollout 3 8]" by simp
  with q have "experience_buffer_queue st' = [([example_rollout 2 10, example_rollout 3 8], 2, 8)]"
    by (simp add: example_rollout_def)
  with ok tw r n show ?thesis by auto
qed

subsection \<open>Minibatch indices\<close>

lemma arange_unit: "arange i (i + r) 1 = [i..i + r - 1]"
proof -
  have "map (\<lambda>k. i + int k) [0..<n] = [i..i + int n - 1]" for n
  proof (induction n)
    case 0 then show ?case by simp
  next
    case (Suc n)
    have "[i..i + int (Suc n) - 1] = [i..i + int n - 1] @ [i + int n]"
      using upto_rec2[of i "i + int n"] by (simp add: algebra_simps)
    with Suc show ?case by simp
  qed
  from this[of "nat r"] show ?thesis by (cases "r \<ge> 0") (auto simp: arange_def)
qed

lemma arange_starts:
  assumes "r > 0" "E mod r = 0"
  shows "arange 0 E r = map (\<lambda>k. int k * r) [0..<nat (E div r)]"
proof -
  from assms obtain q where q: "E = q * r" by (metis mod_eq_0_iff_dvd dvd_def mult.commute)
  have "(r - 1 + q * r) div r = (r - 1) div r + q"
    using assms(1) by (subst div_mult_self1) simp_all
  also have "(r - 1) div r = 0" using assms(1) by (simp add: div_pos_pos_trivial)
  finally have "(E + r - 1) div r = E div r" using q assms(1) by (simp add: algebra_simps)
  with assms show ?thesis by (simp add: arange_def)
qed

lemma concat_windows_upto:
  assumes "r > 0"
  shows "concat (map (\<lambda>k. [int k * r..int k * r + r - 1]) [0..<m]) = [0..int m * r - 1]"
proof (induction m)
  case 0
  then show ?case by simp
next
  case (Suc m)
  have e: "int (Suc m) * r - 1 = int m * r + r - 1" by (simp add: algebra_simps)
  have "0 \<le> int m * r" "int m * r \<le> int m * r + r - 1" using assms by simp_all
  from upto_split1[OF this]
  have "[0..int (Suc m) * r - 1] = [0..int m * r - 1] @ [int m * r..int m * r + r - 1]"
    unfolding e .
  with Suc show ?case by (simp del: of_nat_Suc)
qed

lemma mset_concat_map_cong:
  "mset xs = mset ys \<Longrightarrow> mset (concat (map f xs)) = mset (concat (map f ys))"
proof -
  assume eq: "mset xs = mset ys"
  have "mset (concat (map f zs)) = sum_mset (image_mset (\<lambda>z. mset (f z)) (mset zs))" for zs
    by (induction zs) simp_all
  with eq show ?thesis by simp
qed

lemma length_concat_windows:
  "\<forall>w\<in>set ws. length w = k \<Longrightarrow> length (concat ws) = length ws * k"
  by (induction ws) simp_all

lemma sections_concat:
  "k * n \<le> length xs \<Longrightarrow> concat (sections k n xs) = take (k * n) xs"
proof (induction n arbitrary: xs)
  case 0
  then show ?case by simp
next
  case (Suc n)
  then have "k * n \<le> length (drop k xs)" by simp
  from Suc.IH[OF this] have "concat (sections k (Suc n) xs) = take k xs @ take (k * n) (drop k xs)"
    by simp
  also have "\<dots> = take (k + k * n) xs" by (simp add: take_add)
  finally show ?case by simp
qed

lemma sections_length: "length (sections k n xs) = n"
  by (induction n arbitrary: xs) simp_all

lemma sections_each:
  "k * n \<le> length xs \<Longrightarrow> s \<in> set (sections k n xs) \<Longrightarrow> length s = k"
proof (induction n arbitrary: xs)
  case 0
  then show ?case by simp
next
  case (Suc n)
  from Suc.prems(1) have a: "k * n \<le> length (drop k xs)" and b: "k \<le> length xs" by simp_all
  from Suc.prems(2) have "s = take k xs \<or> s \<in> set (sections k n (drop k xs))" by simp
  then show ?case
  proof
    assume "s = take k xs"
    with b show ?thesis by simp
  next
    assume "s \<in> set (sections k n (drop k xs))"
    from Suc.IH[OF a this] show ?thesis .
  qed
qed

lemma sections_of_concat:
  "\<forall>w\<in>set ws. length w = k \<Longrightarrow> n * q \<le> length ws \<Longrightarrow>
     sections (q * k) n (concat ws) = map concat (sections q n ws)"
proof (induction n arbitrary: ws)
  case 0
  then show ?case by simp
next
  case (Suc n)
  have tk: "take (q * k) (concat ws) = concat (take q ws)"
      and dr: "drop (q * k) (concat ws) = concat (drop q ws)"
    if "\<forall>w\<in>set ws. length w = k" for ws :: "'a list list"
    using that
  proof (induction q arbitrary: ws)
    case 0
    { case 1 then show ?case by simp next case 2 then show ?case by simp }
  next
    case (Suc q)
    { case 1 then show ?case using Suc(1)[of "tl ws"] by (cases ws) simp_all
    next case 2 then show ?case using Suc(2)[of "tl ws"] by (cases ws) simp_all }
  qed
  from Suc.prems have "\<forall>w\<in>set (drop q ws). length w = k" "n * q \<le> length (drop q ws)"
    by (auto dest: in_set_dropD)
  from Suc.IH[OF this] tk[OF Suc.prems(1)] dr[OF Suc.prems(1)] show ?case by simp
qed

lemma sections_subset:
  "s \<in> set (sections k n xs) \<Longrightarrow> set s \<subseteq> set xs"
proof (induction n arbitrary: xs)
  case 0
  then show ?case by simp
next
  case (Suc n)
  from Suc.prems have "s = take k xs \<or> s \<in> set (sections k n (drop k xs))" by simp
  then show ?case
  proof
    assume "s = take k xs"
    then show ?thesis by (simp add: set_take_subset)
  next
    assume "s \<in> set (sections k n (drop k xs))"
    from Suc.IH[OF this] show ?thesis using set_drop_subset[of k xs] by blast
  qed
qed

lemma sections_concat_id:
  "\<forall>w\<in>set ws. length w = k \<Longrightarrow> sections k (length ws) (concat ws) = ws"
  by (induction ws) simp_all

lemma windows_consist:
  assumes r: "r > 0" and ws: "\<forall>w\<in>set ws. \<exists>i. i mod r = 0 \<and> w = [i..i + r - 1]"
  shows "consists_of_windows r (concat ws)"
proof -
  from r ws have len: "\<forall>w\<in>set ws. length w = nat r" by auto
  from length_concat_windows[OF len] have l: "length (concat ws) = length ws * nat r" .
  with r have d: "length (concat ws) div nat r = length ws" by simp
  from l r have m: "int (length (concat ws)) mod r = 0" by simp
  have "w \<noteq> [] \<and> hd w mod r = 0 \<and> w = arange (hd w) (hd w + r) 1" if "w \<in> set ws" for w
  proof -
    from ws that have "\<exists>i. i mod r = 0 \<and> w = [i..i + r - 1]" by (rule bspec)
    then obtain i where i: "i mod r = 0" "w = [i..i + r - 1]" by (elim exE conjE)
    from r have "[i..i + r - 1] = i # [i + 1..i + r - 1]" by (intro upto_rec1) simp
    with i have "w \<noteq> []" "hd w = i" by simp_all
    with i show ?thesis by (simp add: arange_unit)
  qed
  then have "list_all (\<lambda>w. w \<noteq> [] \<and> hd w mod r = 0 \<and> w = arange (hd w) (hd w + r) 1) ws"
    by (simp add: list_all_iff)
  with r m d sections_concat_id[OF len] show ?thesis
    by (simp add: consists_of_windows_def)
qed

text \<open>
  Claim C3, as amended. For positive \<open>recurrence\<close>, \<open>batch_size\<close> and \<open>experience_size\<close>, with
  \<open>rollout % recurrence = 0\<close>, \<open>macro_batch \<noteq> batch_size\<close>, \<open>experience_size % batch_size = 0\<close> and
  \<open>experience_size % recurrence = 0\<close>, and whatever permutation the generator draws,
  \<^verbatim>\<open>_get_minibatches\<close> returns; the concatenation of its minibatches is a permutation of
  \<open>[0, experience_size)\<close>; there are \<open>experience_size / batch_size\<close> minibatches of
  \<open>batch_size\<close> indices each; and when \<open>batch_size % recurrence = 0\<close> every minibatch consists
  of contiguous windows of length \<open>recurrence\<close> that start at multiples of \<open>recurrence\<close>.
  The case \<open>recurrence = rollout\<close> is included.
\<close>

theorem get_minibatches_partition:
  assumes r: "recurrence c > 0" and bs: "batch_size c > 0" and E: "experience_size > 0"
    and rr: "rollout c mod recurrence c = 0"
    and ne: "macro_batch c \<noteq> batch_size c"
    and Eb: "experience_size mod batch_size c = 0"
    and Er: "experience_size mod recurrence c = 0"
    and p: "mset (perm rng (arange 0 experience_size (recurrence c)))
              = mset (arange 0 experience_size (recurrence c))"
  shows "\<exists>mbs. get_minibatches c perm rng experience_size = Inr (map Some mbs, Suc rng)
     \<and> mset (concat mbs) = mset [0..experience_size - 1]
     \<and> int (length mbs) = experience_size div batch_size c
     \<and> (\<forall>mb\<in>set mbs. int (length mb) = batch_size c)
     \<and> (batch_size c mod recurrence c = 0 \<longrightarrow>
          (\<forall>mb\<in>set mbs. consists_of_windows (recurrence c) mb))"
proof -
  let ?r = "recurrence c" and ?b = "batch_size c" and ?E = experience_size
  let ?W = "\<lambda>i. [i..i + ?r - 1]"
  let ?s0 = "arange 0 ?E ?r"
  let ?starts = "perm rng ?s0"
  let ?ws = "map ?W ?starts"
  let ?ix = "concat ?ws"
  let ?num = "?E div ?b"
  let ?m = "nat (?E div ?r)"
  have s0: "?s0 = map (\<lambda>k. int k * ?r) [0..<?m]" using r Er by (rule arange_starts)
  from p have sset: "set ?starts = set ?s0" by (rule mset_eq_setD)
  from p have "length ?starts = length ?s0" by (rule mset_eq_length)
  with s0 have ls: "length ?starts = ?m" by simp
  from Er have "?E div ?r * ?r = ?E" by (simp add: mod_0_imp_dvd)
  moreover from E r this have "?E div ?r > 0"
    by (metis mult_zero_left less_le pos_imp_zdiv_nonneg_iff)
  ultimately have Em: "?E = int ?m * ?r" and mpos: "?m > 0" by simp_all
  have wlen: "\<forall>w\<in>set ?ws. length w = nat ?r" using r by auto
  from length_concat_windows[OF wlen] ls have "length ?ix = ?m * nat ?r" by simp
  with Em r have lix: "int (length ?ix) = ?E" by (simp add: nat_mult_distrib)
  from Eb have Eq: "?E = ?num * ?b" by (simp add: mod_0_imp_dvd)
  from E bs Eq have npos: "?num > 0"
    by (metis mult_zero_left less_le pos_imp_zdiv_nonneg_iff)
  have ln: "length ?ix = nat ?b * nat ?num"
    using lix Eq bs npos by (metis mult.commute nat_int nat_mult_distrib order_less_imp_le)
  then have dv: "length ?ix div nat ?num = nat ?b" using npos by simp
  let ?mbs = "sections (nat ?b) (nat ?num) ?ix"
  have "?num dvd ?E" using Eq by (metis dvd_triv_left)
  then have Emod: "?E mod ?num = 0" by simp
  have sp: "np_split ?ix ?num = Inr ?mbs"
    using npos lix Emod dv by (simp add: np_split_def)
  have ws_ne: "?ws \<noteq> []" using ls mpos by auto
  have gm: "get_minibatches c perm rng ?E = Inr (map Some ?mbs, Suc rng)"
    using r bs rr ne Eb ws_ne lix sp
    by (simp add: get_minibatches_def assert_mod_zero_def arange_unit py_floordiv_def Let_def)
  have "concat ?mbs = take (nat ?b * nat ?num) ?ix" by (rule sections_concat) (simp add: ln)
  then have cc: "concat ?mbs = ?ix" by (simp add: ln)
  have "mset ?ix = mset (concat (map ?W ?s0))" using p by (rule mset_concat_map_cong)
  also have "concat (map ?W ?s0) = [0..int ?m * ?r - 1]"
    using concat_windows_upto[OF r, of ?m] by (simp add: s0 comp_def)
  finally have perm: "mset (concat ?mbs) = mset [0..?E - 1]" using cc Em by simp
  have cnt: "int (length ?mbs) = ?num" using npos by (simp add: sections_length)
  have each: "\<forall>mb\<in>set ?mbs. int (length mb) = ?b"
  proof
    fix mb assume "mb \<in> set ?mbs"
    with sections_each[of "nat ?b" "nat ?num" ?ix mb] ln bs show "int (length mb) = ?b" by simp
  qed
  have win: "\<forall>mb\<in>set ?mbs. consists_of_windows ?r mb" if br: "?b mod ?r = 0"
  proof
    fix mb assume mb: "mb \<in> set ?mbs"
    let ?q = "nat (?b div ?r)"
    from br have bqi: "?b = ?b div ?r * ?r" by (simp add: mod_0_imp_dvd)
    from r bs have qn: "?b div ?r \<ge> 0" by (simp add: pos_imp_zdiv_nonneg_iff)
    from bqi qn r have bq: "nat ?b = ?q * nat ?r"
      by (metis nat_mult_distrib)
    have "int (nat ?num * ?q) * ?r = ?num * (?b div ?r * ?r)"
      using qn npos by simp
    with bqi Eq have "int (nat ?num * ?q) * ?r = ?E" by simp
    with Em have "int (nat ?num * ?q) * ?r = int ?m * ?r" by simp
    with r have "int (nat ?num * ?q) = int ?m" by (simp only: mult_cancel_right) simp
    then have "nat ?num * ?q = ?m" by (simp only: of_nat_eq_iff)
    with ls have le: "nat ?num * ?q \<le> length ?ws" by simp
    from sections_of_concat[OF wlen le] bq
    have "?mbs = map concat (sections ?q (nat ?num) ?ws)" by simp
    with mb obtain sub where sub: "sub \<in> set (sections ?q (nat ?num) ?ws)" "mb = concat sub"
      by auto
    have "\<forall>w\<in>set sub. \<exists>i. i mod ?r = 0 \<and> w = [i..i + ?r - 1]"
    proof
      fix w assume "w \<in> set sub"
      with sections_subset[OF sub(1)] have "w \<in> set ?ws" by blast
      then obtain i where i: "i \<in> set ?starts" "w = ?W i" by auto
      from i(1) sset s0 have "i mod ?r = 0" by auto
      from this i(2) have "i mod ?r = 0 \<and> w = [i..i + ?r - 1]" by (rule conjI)
      then show "\<exists>i. i mod ?r = 0 \<and> w = [i..i + ?r - 1]" by (rule exI)
    qed
    from windows_consist[OF r this] sub show "consists_of_windows ?r mb" by simp
  qed
  from gm perm cnt each win show ?thesis by blast
qed

text \<open>
  The claim as stated fails where \<open>batch_size\<close> is no multiple of \<open>recurrence\<close>: with
  \<open>recurrence = 4\<close>, \<open>batch_size = 6\<close> and \<open>experience_size = 12\<close> the first minibatch holds one
  window and half of the next.
\<close>

theorem get_minibatches_split_window_counterexample:
  "macro_batch split_windows_config \<noteq> batch_size split_windows_config
   \<and> 12 mod batch_size split_windows_config = 0
   \<and> 12 mod recurrence split_windows_config = 0
   \<and> get_minibatches split_windows_config (\<lambda>s xs. xs) 0 12
        = Inr ([Some [0, 1, 2, 3, 4, 5], Some [6, 7, 8, 9, 10, 11]], 1)
   \<and> \<not> consists_of_windows (recurrence split_windows_config) [0, 1, 2, 3, 4, 5]"
  by code_simp

text \<open>
  The boundary case \<open>recurrence = rollout = 4\<close> with two minibatches of two windows each.
\<close>

theorem get_minibatches_partition_witness:
  "get_minibatches whole_windows_config (\<lambda>s xs. rev xs) 0 16
     = Inr ([Some [12, 13, 14, 15, 8, 9, 10, 11], Some [4, 5, 6, 7, 0, 1, 2, 3]], 1)
   \<and> rollout whole_windows_config = recurrence whole_windows_config
   \<and> mset ([12, 13, 14, 15, 8, 9, 10, 11] @ [4, 5, 6, 7, 0, 1, 2, 3]) = mset [0..16 - 1]
   \<and> consists_of_windows 4 [12, 13, 14, 15, 8, 9, 10, 11]
   \<and> consists_of_windows 4 [4, 5, 6, 7, 0, 1, 2, 3]"
proof -
  let ?c = whole_windows_config
  have c: "recurrence ?c = 4" "batch_size ?c = 8" "rollout ?c = 4" "macro_batch ?c = 16"
    by (simp_all add: whole_windows_config_def example_config_def)
  have ev: "get_minibatches ?c (\<lambda>s xs. rev xs) 0 16
     = Inr (map Some [[12, 13, 14, 15, 8, 9, 10, 11], [4, 5, 6, 7, 0, 1, 2, 3]], Suc 0)"
    by code_simp
  have "\<exists>mbs. get_minibatches ?c (\<lambda>s xs. rev xs) 0 16 = Inr (map Some mbs, Suc 0)
     \<and> mset (concat mbs) = mset [0..16 - 1]
     \<and> int (length mbs) = 16 div batch_size ?c
     \<and> (\<forall>mb\<in>set mbs. int (length mb) = batch_size ?c)
     \<and> (batch_size ?c mod recurrence ?c = 0 \<longrightarrow>
          (\<forall>mb\<in>set mbs. consists_of_windows (recurrence ?c) mb))"
    by (rule get_minibatches_partition) (simp_all add: c)
  then obtain mbs where m: "get_minibatches ?c (\<lambda>s xs. rev xs) 0 16 = Inr (map Some mbs, Suc 0)"
     and p: "mset (concat mbs) = mset [0..16 - 1]"
     and w: "\<forall>mb\<in>set mbs. consists_of_windows 4 mb"
    by (auto simp: c)
  from m ev have "map Some mbs = map Some [[12, 13, 14, 15, 8, 9, 10, 11], [4, 5, 6, 7, 0, 1, 2, 3]]"
    by simp
  then have "mbs = [[12, 13, 14, 15, 8, 9, 10, 11], [4, 5, 6, 7, 0, 1, 2, 3]]"
    by (simp add: map_eq_Cons_conv)
  with p w ev c show ?thesis by simp
qed

subsection \<open>V-trace targets\<close>

lemma arange_stride:
  assumes "0 \<le> i" "i < r" "bs = r * int nt"
  shows "arange i bs r = map (\<lambda>k. i + int k * r) [0..<nt]"
proof -
  from assms have r: "r > 0" by simp
  have "(r - 1 - i + int nt * r) div r = (r - 1 - i) div r + int nt"
    using r by (subst div_mult_self1) simp_all
  also have "(r - 1 - i) div r = 0" using assms by (simp add: div_pos_pos_trivial)
  finally have "(bs - i + r - 1) div r = int nt" using assms(3) by (simp add: algebra_simps)
  with r show ?thesis by (simp add: arange_def)
qed

lemma stride_in_range:
  assumes "0 \<le> i" "i < r" "k < nt"
  shows "0 \<le> i + int k * r" "i + int k * r < r * int nt"
proof -
  from assms show "0 \<le> i + int k * r" by simp
  from assms(3) have "int k + 1 \<le> int nt" by simp
  then have "(int k + 1) * r \<le> int nt * r" using assms by (intro mult_right_mono) simp_all
  with assms show "i + int k * r < r * int nt" by (simp add: algebra_simps)
qed

lemma stride_member:
  assumes "0 \<le> i" "i < r" "t < nt * nat r"
  shows "int t \<in> set (map (\<lambda>k. i + int k * r) [0..<nt]) \<longleftrightarrow> int t mod r = i"
proof
  assume "int t \<in> set (map (\<lambda>k. i + int k * r) [0..<nt])"
  then obtain k where "int t = i + int k * r" by auto
  with assms show "int t mod r = i" by simp
next
  assume m: "int t mod r = i"
  from assms have r: "r > 0" by simp
  let ?q = "nat r"
  let ?k = "t div ?q"
  from r have rq: "r = int ?q" and q: "?q > 0" by simp_all
  have "int t = int (t mod ?q) + int ?k * int ?q"
    by (metis mod_mult_div_eq of_nat_add of_nat_mult mult.commute)
  moreover have "int (t mod ?q) = int t mod r" by (subst rq) (simp add: zmod_int)
  ultimately have e: "int t = i + int ?k * r" using m rq by simp
  from assms(3) q have "?k < nt" by (simp add: div_less_iff_less_mult)
  with e show "int t \<in> set (map (\<lambda>k. i + int k * r) [0..<nt])" by auto
qed

lemma gather_in_range:
  "\<forall>i\<in>set idx. 0 \<le> i \<and> i < int (length xs) \<Longrightarrow> gather xs idx = Inr (map (\<lambda>i. xs ! nat i) idx)"
  by (simp add: gather_def list_all_iff)

lemma scatter_gathered:
  "\<forall>i\<in>set idx. 0 \<le> i \<and> i < int (length xs) \<Longrightarrow> length src = length xs \<Longrightarrow>
     \<exists>ys. scatter xs idx (map (\<lambda>i. src ! nat i) idx) = Inr ys \<and> length ys = length xs
        \<and> (\<forall>t<length xs. ys ! t = (if int t \<in> set idx then src ! t else xs ! t))"
proof (induction idx arbitrary: xs)
  case Nil
  then show ?case by simp
next
  case (Cons i idx)
  let ?xs = "xs[nat i := src ! nat i]"
  from Cons.prems have i: "0 \<le> i" "i < int (length xs)" by simp_all
  from Cons.prems have "\<forall>j\<in>set idx. 0 \<le> j \<and> j < int (length ?xs)" "length src = length ?xs"
    by simp_all
  from Cons.IH[OF this] obtain ys where ys: "scatter ?xs idx (map (\<lambda>i. src ! nat i) idx) = Inr ys"
    "length ys = length xs"
    "\<forall>t<length xs. ys ! t = (if int t \<in> set idx then src ! t else ?xs ! t)" by auto
  have "ys ! t = (if int t \<in> set (i # idx) then src ! t else xs ! t)" if "t < length xs" for t
  proof (cases "int t \<in> set idx")
    case True
    with ys(3) that show ?thesis by simp
  next
    case False
    with ys(3) that have "ys ! t = ?xs ! t" by simp
    with False that i show ?thesis by (cases "t = nat i") auto
  qed
  with ys i show ?case by simp
qed

lemma fl_round_in_format: "in_format F (Fin x) \<Longrightarrow> fl_round F x = Fin x"
  by (auto simp: fl_round_def)

lemma is_finite_conv: "is_finite a \<longleftrightarrow> (\<exists>x. a = Fin x)"
  by (cases a) simp_all

lemma fl_add_finite: "is_finite (fl_add F a b) \<Longrightarrow> is_finite a \<and> is_finite b"
  by (cases a; cases b) simp_all

lemma fl_sub_finite: "is_finite (fl_sub F a b) \<Longrightarrow> is_finite a \<and> is_finite b"
  unfolding fl_sub_def by (cases a; cases b) simp_all

lemma fl_mul_finite: "is_finite (fl_mul F a b) \<Longrightarrow> is_finite a \<and> is_finite b"
  by (cases a; cases b) (simp_all add: inf_of_sign_def split: if_splits)

lemma fl_mul_zero_left: "in_format F (Fin 0) \<Longrightarrow> is_finite b \<Longrightarrow> fl_mul F (Fin 0) b = Fin 0"
  by (cases b) (simp_all add: fl_round_in_format)

lemma fl_mul_zero_right: "in_format F (Fin 0) \<Longrightarrow> is_finite a \<Longrightarrow> fl_mul F a (Fin 0) = Fin 0"
  by (cases a) (simp_all add: fl_round_in_format)

lemma fl_add_zero_right:
  "is_finite a \<Longrightarrow> in_format F a \<Longrightarrow> fl_add F a (Fin 0) = a"
  by (cases a) (simp_all add: fl_round_in_format)

lemma fl_sub_self: "in_format F (Fin 0) \<Longrightarrow> is_finite a \<Longrightarrow> fl_sub F a a = Fin 0"
  by (cases a) (simp_all add: fl_sub_def fl_round_in_format)

lemma fl_less_asym: "fl_less a b \<Longrightarrow> \<not> fl_less b a"
  by (cases a; cases b) simp_all

lemma fl_div_zero_left:
  "in_format F (Fin 0) \<Longrightarrow> fl_less (Fin 0) b \<Longrightarrow> fl_div F (Fin 0) b = Fin 0"
  by (cases b) (simp_all add: fl_round_in_format)

lemma t_length [simp]:
  "length (t_add F xs ys) = min (length xs) (length ys)"
  "length (t_sub F xs ys) = min (length xs) (length ys)"
  "length (t_mul F xs ys) = min (length xs) (length ys)"
  by (simp_all add: t_add_def t_sub_def t_mul_def)

lemma t_nth:
  "k < length xs \<Longrightarrow> k < length ys \<Longrightarrow> t_add F xs ys ! k = fl_add F (xs ! k) (ys ! k)"
  "k < length xs \<Longrightarrow> k < length ys \<Longrightarrow> t_sub F xs ys ! k = fl_sub F (xs ! k) (ys ! k)"
  "k < length xs \<Longrightarrow> k < length ys \<Longrightarrow> t_mul F xs ys ! k = fl_mul F (xs ! k) (ys ! k)"
  by (simp_all add: t_add_def t_sub_def t_mul_def)

lemma nth_zeros_int: "0 \<le> j \<Longrightarrow> j < int n \<Longrightarrow> replicate n (Fin 0) ! nat j = Fin 0"
  by simp

lemma map_nth_zeros:
  "\<forall>i\<in>set idx. 0 \<le> i \<and> i < int n \<Longrightarrow>
     map (\<lambda>i. replicate n (Fin 0) ! nat i) idx = replicate (length idx) (Fin 0)"
  by (induction idx) (simp_all add: nth_zeros_int)

lemma gather_zeros:
  "\<forall>i\<in>set idx. 0 \<le> i \<and> i < int n \<Longrightarrow>
     gather (replicate n (Fin 0)) idx = Inr (replicate (length idx) (Fin 0))"
  by (simp add: gather_def list_all_iff map_nth_zeros)

lemma scatter_zeros:
  assumes "\<forall>i\<in>set idx. 0 \<le> i \<and> i < int n"
  shows "scatter (replicate n (Fin 0)) idx (replicate (length idx) (Fin 0)) = Inr (replicate n (Fin 0))"
proof -
  let ?Z = "replicate n (Fin 0)"
  have m: "map (\<lambda>i. ?Z ! nat i) idx = replicate (length idx) (Fin 0)"
    using assms by (rule map_nth_zeros)
  from assms have "\<forall>i\<in>set idx. 0 \<le> i \<and> i < int (length ?Z)" by simp
  from scatter_gathered[OF this, of ?Z] obtain ys
    where ys: "scatter ?Z idx (map (\<lambda>i. ?Z ! nat i) idx) = Inr ys" "length ys = n"
      "\<forall>t<n. ys ! t = (if int t \<in> set idx then ?Z ! t else ?Z ! t)" by auto
  from ys(2,3) have "ys = ?Z" by (auto simp: list_eq_iff_nth_eq)
  with ys(1) m show ?thesis by simp
qed

lemma tensor_sum_zeros:
  "in_format F (Fin 0) \<Longrightarrow> tensor_sum F (replicate n (Fin 0)) = Fin 0"
  unfolding tensor_sum_def by (induction n) (simp_all add: fl_round_in_format)

lemma tensor_mean_zeros:
  "in_format F (Fin 0) \<Longrightarrow> n > 0 \<Longrightarrow> tensor_mean F (replicate n (Fin 0)) = Fin 0"
  by (simp add: tensor_mean_def tensor_sum_zeros fl_round_in_format)

lemma tensor_std_zeros:
  assumes "in_format F (Fin 0)" "n \<ge> 2"
  shows "tensor_std F (replicate n (Fin 0)) = Fin 0"
proof -
  from assms(2) have n: "n > 0" "\<not> n \<le> 1" "real n - 1 \<noteq> 0" by simp_all
  show ?thesis
    using assms(1) n
    by (simp add: tensor_std_def Let_def tensor_mean_zeros fl_sub_def tensor_sum_zeros
          fl_round_in_format)
qed

text \<open>
  The temporal-difference error is finite only if the discount is not zero in \<^verbatim>\<open>float32\<close>: the
  bootstrap after the last step of a sub-trajectory divides by it.
\<close>

lemma td_error_zero_gamma:
  assumes "to_float32 A (Fin (gamma c)) = Fin 0" "int t mod recurrence c = recurrence c - 1"
  shows "\<not> is_finite (td_error A c inp t)"
proof
  let ?F = "float32 A"
  let ?x = "fl_sub ?F (result_values inp ! t) (rewards_cpu inp ! t)"
  assume "is_finite (td_error A c inp t)"
  then have "is_finite (fl_mul ?F (fl_mul ?F (fl_sub ?F (Fin 1) (dones_cpu inp ! t)) (Fin 0))
                 (fl_div ?F ?x (Fin 0)))"
    using assms by (auto simp: td_error_def next_value_def Let_def dest!: fl_sub_finite fl_add_finite)
  then have "is_finite (fl_div ?F ?x (Fin 0))" by (auto dest: fl_mul_finite)
  then show False by (cases ?x) (simp_all add: inf_of_sign_def split: if_splits)
qed

lemma vtrace_loop_step:
  assumes r: "recurrence c > 0" and b: "batch_size c = recurrence c * int nt"
    and n: "n = nt * nat (recurrence c)"
    and lv: "length (result_values inp) = n" and lr: "length (rewards_cpu inp) = n"
    and ld: "length (dones_cpu inp) = n"
    and zero: "in_format (float32 A) (Fin 0)"
    and vals: "\<forall>v\<in>set (result_values inp). in_format (float32 A) v"
    and fin: "\<forall>t<n. is_finite (td_error A c inp t)"
    and i: "i < nat (recurrence c)"
    and nv: "nv = map (\<lambda>k. next_value A c inp (i + k * nat (recurrence c))) [0..<nt]"
    and lvs: "length vs = n"
  shows "\<exists>vs'. scatter vs (map (\<lambda>k. int i + int k * recurrence c) [0..<nt])
                (map (\<lambda>j. result_values inp ! nat j)
                   (map (\<lambda>k. int i + int k * recurrence c) [0..<nt]))
              = Inr vs'
     \<and> vtrace_loop A c inp (Tensor1 (result_values inp)) (replicate n (Fin 0)) (replicate n (Fin 0))
         (Suc i) (nv, nv, vs, replicate n (Fin 0))
       = vtrace_loop A c inp (Tensor1 (result_values inp)) (replicate n (Fin 0))
           (replicate n (Fin 0)) i
           (map (\<lambda>j. result_values inp ! nat j) (map (\<lambda>k. int i + int k * recurrence c) [0..<nt]),
            map (\<lambda>j. result_values inp ! nat j) (map (\<lambda>k. int i + int k * recurrence c) [0..<nt]),
            vs', replicate n (Fin 0))"
proof -
  let ?r = "recurrence c" and ?F = "float32 A"
  let ?g = "to_float32 A (Fin (gamma c))"
  define T where "T = map (\<lambda>k. int i + int k * ?r) [0..<nt]"
  define cv where "cv = map (\<lambda>j. result_values inp ! nat j) T"
  define rew where "rew = map (\<lambda>j. rewards_cpu inp ! nat j) T"
  define dn where "dn = map (\<lambda>j. dones_cpu inp ! nat j) T"
  define ndg where "ndg = map (\<lambda>x. fl_mul ?F x ?g) (map (\<lambda>d. fl_sub ?F (Fin 1) d) dn)"
  define B where "B = t_sub ?F (t_add ?F rew (t_mul ?F ndg nv)) cv"
  let ?Z = "replicate n (Fin 0)"
  let ?z = "replicate nt (Fin 0)"
  from i r have i': "0 \<le> int i" "int i < ?r" by simp_all
  have Teq: "arange (int i) (batch_size c) ?r = T" unfolding T_def using i' b by (rule arange_stride)
  have nn: "int n = ?r * int nt" using n r by simp
  have rng: "\<forall>j\<in>set T. 0 \<le> j \<and> j < int n"
    unfolding T_def using stride_in_range[OF i'] by (auto simp: nn)
  have lT: "length T = nt" by (simp add: T_def)
  have l: "length cv = nt" "length rew = nt" "length ndg = nt" "length nv = nt" "length B = nt"
    by (simp_all add: cv_def rew_def ndg_def dn_def lT nv B_def)
  have pos: "nat (T ! k) = i + k * nat ?r" "i + k * nat ?r < n" if "k < nt" for k
  proof -
    from that have "T ! k = int i + int k * ?r" by (simp add: T_def)
    with r show "nat (T ! k) = i + k * nat ?r" by (simp add: nat_add_distrib nat_mult_distrib)
    from that rng lT have "0 \<le> T ! k \<and> T ! k < int n" by (metis nth_mem)
    then have "nat (T ! k) < n" by (simp add: nat_less_iff)
    with \<open>nat (T ! k) = i + k * nat ?r\<close> show "i + k * nat ?r < n" by simp
  qed
  have Bk: "B ! k = td_error A c inp (i + k * nat ?r)" if "k < nt" for k
    using that pos[OF that]
    by (simp add: B_def t_nth l lT rew_def cv_def ndg_def dn_def nv td_error_def Let_def)
  have finB: "is_finite (B ! k)" if "k < nt" for k
    using Bk[OF that] pos(2)[OF that] fin by simp
  have parts: "is_finite (ndg ! k)" "is_finite (nv ! k)" "is_finite (cv ! k)" if "k < nt" for k
  proof -
    from finB[OF that] that
    have "is_finite (fl_sub ?F (fl_add ?F (rew ! k) (fl_mul ?F (ndg ! k) (nv ! k))) (cv ! k))"
      by (simp add: B_def t_nth l)
    then have s: "is_finite (fl_add ?F (rew ! k) (fl_mul ?F (ndg ! k) (nv ! k)))"
      and c: "is_finite (cv ! k)" by (auto dest: fl_sub_finite)
    from s have "is_finite (fl_mul ?F (ndg ! k) (nv ! k))" by (auto dest: fl_add_finite)
    then show "is_finite (ndg ! k)" "is_finite (nv ! k)" by (auto dest: fl_mul_finite)
    from c show "is_finite (cv ! k)" .
  qed
  have cvf: "in_format ?F (cv ! k)" if "k < nt" for k
  proof -
    from that pos[OF that] lv have "cv ! k \<in> set (result_values inp)"
      by (simp add: cv_def lT)
    with vals show ?thesis by blast
  qed
  have g1: "gather (rewards_cpu inp) T = Inr rew"
    unfolding rew_def by (rule gather_in_range) (use rng lr in simp)
  have g2: "gather (dones_cpu inp) T = Inr dn"
    unfolding dn_def by (rule gather_in_range) (use rng ld in simp)
  have g3: "gather (result_values inp) T = Inr cv"
    unfolding cv_def by (rule gather_in_range) (use rng lv in simp)
  have g4: "gather ?Z T = Inr ?z"
    using gather_zeros[OF rng] lT by simp
  have s1: "scatter ?Z T ?z = Inr ?Z"
    using scatter_zeros[OF rng] lT by simp
  from rng lvs have "\<forall>j\<in>set T. 0 \<le> j \<and> j < int (length vs)" by simp
  from scatter_gathered[OF this, of "result_values inp"] lv lvs
  obtain vs' where s2: "scatter vs T cv = Inr vs'" unfolding cv_def by auto
  have d1: "t_mul ?F ?z B = ?z"
    by (rule nth_equalityI) (simp_all add: l t_nth fl_mul_zero_left[OF zero] finB)
  have d3: "t_mul ?F ndg ?z = ?z"
    by (rule nth_equalityI) (simp_all add: l t_nth fl_mul_zero_right[OF zero] parts)
  have d4: "t_sub ?F nv nv = ?z"
    by (rule nth_equalityI) (simp_all add: l t_nth fl_sub_self[OF zero] parts)
  have d5: "t_mul ?F ?z ?z = ?z"
    by (rule nth_equalityI) (simp_all add: t_nth fl_round_in_format[OF zero])
  have d6: "t_add ?F cv ?z = cv"
    by (rule nth_equalityI) (simp_all add: l t_nth fl_add_zero_right parts cvf)
  have step: "vtrace_loop A c inp (Tensor1 (result_values inp)) ?Z ?Z (Suc i) (nv, nv, vs, ?Z)
       = vtrace_loop A c inp (Tensor1 (result_values inp)) ?Z ?Z i (cv, cv, vs', ?Z)"
    by (simp only: vtrace_loop.simps Teq Let_def g1 g2 g3 g4 sum.case index_tensor.simps
          ndg_def[symmetric] B_def[symmetric] d1 d3 d4 d5 d6 s1 s2)
  from s2 step show ?thesis unfolding cv_def T_def by blast
qed

lemma vtrace_loop_zero:
  assumes r: "recurrence c > 0" and b: "batch_size c = recurrence c * int nt"
    and n: "n = nt * nat (recurrence c)"
    and lv: "length (result_values inp) = n" and lr: "length (rewards_cpu inp) = n"
    and ld: "length (dones_cpu inp) = n"
    and zero: "in_format (float32 A) (Fin 0)"
    and vals: "\<forall>v\<in>set (result_values inp). in_format (float32 A) v"
    and fin: "\<forall>t<n. is_finite (td_error A c inp t)"
  shows "i \<le> nat (recurrence c) \<Longrightarrow> i > 0 \<Longrightarrow>
     nv = map (\<lambda>k. next_value A c inp (i - 1 + k * nat (recurrence c))) [0..<nt] \<Longrightarrow>
     length vs = n \<Longrightarrow>
     \<exists>vs'. vtrace_loop A c inp (Tensor1 (result_values inp)) (replicate n (Fin 0))
              (replicate n (Fin 0)) i (nv, nv, vs, replicate n (Fin 0))
              = Inr (vs', replicate n (Fin 0))
        \<and> length vs' = n
        \<and> (\<forall>t<n. vs' ! t = (if int t mod recurrence c < int i then result_values inp ! t
                             else vs ! t))"
proof (induction i arbitrary: nv vs)
  case 0
  then show ?case by simp
next
  case (Suc i)
  let ?r = "recurrence c"
  let ?T = "map (\<lambda>k. int i + int k * ?r) [0..<nt]"
  let ?cv = "map (\<lambda>j. result_values inp ! nat j) ?T"
  let ?Z = "replicate n (Fin 0)"
  let ?V = "Tensor1 (result_values inp)"
  from Suc.prems have i: "i < nat ?r" by simp
  then have i': "0 \<le> int i" "int i < ?r" by simp_all
  from Suc.prems(3) have nv: "nv = map (\<lambda>k. next_value A c inp (i + k * nat ?r)) [0..<nt]" by simp
  from vtrace_loop_step[OF r b n lv lr ld zero vals fin i nv Suc.prems(4)] obtain vs1
    where s: "scatter vs ?T ?cv = Inr vs1"
      and st: "vtrace_loop A c inp ?V ?Z ?Z (Suc i) (nv, nv, vs, ?Z)
                = vtrace_loop A c inp ?V ?Z ?Z i (?cv, ?cv, vs1, ?Z)" by blast
  have nn: "int n = ?r * int nt" using n r by simp
  have "\<forall>j\<in>set ?T. 0 \<le> j \<and> j < int (length vs)"
    using stride_in_range[OF i'] Suc.prems(4) by (auto simp: nn)
  from scatter_gathered[OF this, of "result_values inp"] lv Suc.prems(4) s
  have l1: "length vs1 = n"
    and v1: "\<forall>t<n. vs1 ! t = (if int t \<in> set ?T then result_values inp ! t else vs ! t)"
    by auto
  have member: "int t \<in> set ?T \<longleftrightarrow> int t mod ?r = int i" if "t < n" for t
  proof -
    from that n have "t < nt * nat ?r" by simp
    from stride_member[OF i' this] show ?thesis .
  qed
  show ?case
  proof (cases "i = 0")
    case True
    have "vtrace_loop A c inp ?V ?Z ?Z i (?cv, ?cv, vs1, ?Z) = Inr (vs1, ?Z)"
      by (simp add: True)
    moreover have "vs1 ! t = (if int t mod ?r < int (Suc i) then result_values inp ! t else vs ! t)"
      if t: "t < n" for t
    proof -
      have "0 \<le> int t mod ?r" using r by simp
      then have "int t mod ?r < 1 \<longleftrightarrow> int t mod ?r = 0" by linarith
      with v1 t member[OF t] True show ?thesis by simp
    qed
    ultimately show ?thesis using st l1 by simp
  next
    case False
    then have pos: "i > 0" by simp
    have cv: "?cv = map (\<lambda>k. next_value A c inp (i - 1 + k * nat ?r)) [0..<nt]"
    proof (rule nth_equalityI)
      show "length ?cv = length (map (\<lambda>k. next_value A c inp (i - 1 + k * nat ?r)) [0..<nt])"
        by simp
    next
      fix k assume "k < length ?cv"
      then have k: "k < nt" by simp
      let ?t = "i - 1 + k * nat ?r"
      have "int ?t = (int i - 1) + int k * ?r" using pos r by (simp add: of_nat_diff)
      then have "int ?t mod ?r = (int i - 1) mod ?r" by (simp only: mod_mult_self1)
      also have "\<dots> = int i - 1" by (rule mod_pos_pos_trivial) (use pos i' in simp_all)
      finally have "int ?t mod ?r = int i - 1" .
      with i' have m: "int ?t mod ?r \<noteq> ?r - 1" by (simp only:)
      have "nat (int i + int k * ?r) = Suc ?t"
        using pos r by (simp add: nat_add_distrib nat_mult_distrib)
      with m k show "?cv ! k = map (\<lambda>k. next_value A c inp (i - 1 + k * nat ?r)) [0..<nt] ! k"
        by (simp add: next_value_def)
    qed
    have "i \<le> nat ?r" using i by simp
    from Suc.IH[OF this pos cv l1] obtain vs'
      where f: "vtrace_loop A c inp ?V ?Z ?Z i (?cv, ?cv, vs1, ?Z) = Inr (vs', ?Z)"
        and l': "length vs' = n"
        and v': "\<forall>t<n. vs' ! t = (if int t mod ?r < int i then result_values inp ! t else vs1 ! t)"
      by blast
    have "vs' ! t = (if int t mod ?r < int (Suc i) then result_values inp ! t else vs ! t)"
      if t: "t < n" for t
      using v' v1 t member[OF t] by auto
    with st f l' show ?thesis by simp
  qed
qed

text \<open>
  Claim C8, as amended. For a minibatch of \<open>num_trajectories\<close> sub-trajectories of \<open>recurrence\<close>
  steps with at least two samples in all, whose importance ratios are all zero (so
  \<open>vtrace_rho\<close> and \<open>vtrace_c\<close> vanish everywhere), whose values are finite numbers of
  \<^verbatim>\<open>float32\<close> and whose temporal-difference errors are all finite (so the discount is not zero
  and nothing overflows), the backward recurrence returns \<open>vs = values\<close> at every time step,
  an advantage of zero at every step before normalisation, and a normalised advantage of zero
  as well. The formats need to represent zero and to take the literal \<^verbatim>\<open>1e-2\<close> to a positive
  number.
\<close>

theorem vtrace_zero_ratios:
  assumes r: "recurrence c > 0" and b: "recurrence c * int num_trajectories = batch_size c"
    and two: "batch_size c \<ge> 2"
    and lq: "int (length (ratios_cpu inp)) = batch_size c"
    and lv: "int (length (result_values inp)) = batch_size c"
    and lr: "int (length (rewards_cpu inp)) = batch_size c"
    and ld: "int (length (dones_cpu inp)) = batch_size c"
    and z: "\<forall>x\<in>set (ratios_cpu inp). x = Fin 0"
    and zero: "in_format (float32 A) (Fin 0)"
    and lit: "fl_less (Fin 0) (to_float32 A (py_literal A (1 / 100)))"
    and vals: "\<forall>v\<in>set (result_values inp). in_format (float32 A) v"
    and fin: "\<forall>t<length (result_values inp). is_finite (td_error A c inp t)"
  shows "vtrace A c num_trajectories inp
           = Inr (result_values inp, replicate (length (result_values inp)) (Fin 0),
                  replicate (length (result_values inp)) (Fin 0))"
proof -
  let ?r = "recurrence c" and ?nt = num_trajectories and ?F = "float32 A"
  let ?g = "to_float32 A (Fin (gamma c))"
  let ?lit = "to_float32 A (py_literal A (1 / 100))"
  define n where "n = ?nt * nat ?r"
  let ?Z = "replicate n (Fin 0)"
  let ?V = "Tensor1 (result_values inp)"
  have nn: "int n = batch_size c" using b r by (simp add: n_def mult.commute)
  from lq lv lr ld nn have l: "length (ratios_cpu inp) = n" "length (result_values inp) = n"
    "length (rewards_cpu inp) = n" "length (dones_cpu inp) = n" by simp_all
  from two nn have n2: "n \<ge> 2" by simp
  from z l(1) have q: "ratios_cpu inp = ?Z" by (auto simp: list_eq_iff_nth_eq)
  then have rho: "map (fl_min (Fin 1)) (ratios_cpu inp) = ?Z" by (simp add: fl_min_def)
  have sq: "squeeze (result_values inp) = ?V"
    using l(2) n2 by (cases "result_values inp" rule: list.exhaust; cases "tl (result_values inp)")
      (auto simp: squeeze_def)
  let ?L = "map (\<lambda>k. (?r - 1) + int k * ?r) [0..<?nt]"
  have b': "batch_size c = ?r * int ?nt" using b by simp
  have L: "arange (?r - 1) (batch_size c) ?r = ?L"
    by (rule arange_stride) (use r b' in simp_all)
  have rng: "\<forall>j\<in>set ?L. 0 \<le> j \<and> j < int n"
    using stride_in_range[of "?r - 1" ?r _ ?nt] r by (auto simp: nn b')
  define lastv where "lastv = map (\<lambda>j. result_values inp ! nat j) ?L"
  define lastr where "lastr = map (\<lambda>j. rewards_cpu inp ! nat j) ?L"
  define nv where "nv = map (\<lambda>x. fl_div ?F x ?g) (t_sub ?F lastv lastr)"
  have g1: "gather (result_values inp) ?L = Inr lastv"
    unfolding lastv_def by (rule gather_in_range) (use rng l in simp)
  have g2: "gather (rewards_cpu inp) ?L = Inr lastr"
    unfolding lastr_def by (rule gather_in_range) (use rng l in simp)
  have nv': "nv = map (\<lambda>k. next_value A c inp (nat ?r - 1 + k * nat ?r)) [0..<?nt]"
  proof (rule nth_equalityI)
    show "length nv = length (map (\<lambda>k. next_value A c inp (nat ?r - 1 + k * nat ?r)) [0..<?nt])"
      by (simp add: nv_def lastv_def lastr_def)
  next
    fix k assume "k < length nv"
    then have k: "k < ?nt" by (simp add: nv_def lastv_def lastr_def)
    let ?t = "nat ?r - 1 + k * nat ?r"
    have t: "int ?t = (?r - 1) + int k * ?r" using r by (simp add: of_nat_diff)
    then have "int ?t mod ?r = (?r - 1) mod ?r" by (simp only: mod_mult_self1)
    also have "\<dots> = ?r - 1" by (rule mod_pos_pos_trivial) (use r in simp_all)
    finally have m: "int ?t mod ?r = ?r - 1" .
    have "nat ((?r - 1) + int k * ?r) = ?t" by (simp only: t[symmetric] nat_int)
    with m k show "nv ! k = map (\<lambda>k. next_value A c inp (nat ?r - 1 + k * nat ?r)) [0..<?nt] ! k"
      by (simp add: nv_def lastv_def lastr_def t_nth next_value_def)
  qed
  from fin l(2) have fin': "\<forall>t<n. is_finite (td_error A c inp t)" by simp
  have rpos: "0 < nat ?r" using r by simp
  from vtrace_loop_zero[OF r b' n_def l(2) l(3) l(4) zero vals fin' order_refl rpos nv', of ?Z]
  obtain vs' where f: "vtrace_loop A c inp ?V ?Z ?Z (nat ?r) (nv, nv, ?Z, ?Z) = Inr (vs', ?Z)"
    and l': "length vs' = n"
    and v': "\<forall>t<n. vs' ! t = (if int t mod ?r < int (nat ?r) then result_values inp ! t
                               else ?Z ! t)"
    by auto
  have "vs' ! t = result_values inp ! t" if "t < n" for t
    using v' that r by simp
  with l' l(2) have vs: "vs' = result_values inp" by (simp add: list_eq_iff_nth_eq)
  from n2 have n0: "n > 0" by simp
  have mean: "tensor_mean ?F ?Z = Fin 0" using zero n0 by (rule tensor_mean_zeros)
  have std: "tensor_std ?F ?Z = Fin 0" using zero n2 by (rule tensor_std_zeros)
  have dv: "py_max ?lit (Fin 0) = ?lit"
    using fl_less_asym[OF lit] by (simp add: py_max_def)
  have norm: "map (\<lambda>a. fl_div ?F (fl_sub ?F a (Fin 0)) ?lit) ?Z = ?Z"
    using zero lit by (simp add: fl_sub_def fl_round_in_format fl_div_zero_left)
  have "vtrace A c ?nt inp = Inr (vs', ?Z, ?Z)"
    using r b by (simp only: vtrace_def Let_def rho sq L index_tensor.simps g1 g2 sum.case
        nv_def[symmetric] n_def[symmetric] f prod.case mean std dv norm) simp
  with vs l(2) show ?thesis by simp
qed

lemmas eval_floats =
  fl_round_def fl_sub_def fl_min_def py_max_def py_literal_def inf_of_sign_def example_arith_def

lemmas eval_vtrace =
  vtrace_def Let_def squeeze_def arange_def gather_def t_add_def t_sub_def t_mul_def
  tensor_mean_def tensor_std_def tensor_sum_def example_vtrace_input_def example_config_def

text \<open>
  The claim as stated fails with a discount of zero, where the bootstrap of the last step is
  infinite and every target and advantage comes out as NaN, and for a minibatch of a single
  sample, where the squeezed values have no dimension left to index.
\<close>

theorem vtrace_zero_gamma_counterexample:
  "vtrace example_arith (example_config\<lparr>recurrence := 2, batch_size := 4, gamma := 0\<rparr>) 2
       example_vtrace_input
     = Inr ([NaN, NaN, NaN, NaN], [NaN, NaN, NaN, NaN], [NaN, NaN, NaN, NaN])
   \<and> vtrace example_arith (example_config\<lparr>recurrence := 1, batch_size := 1\<rparr>) 1
       \<lparr>ratios_cpu = [Fin 0], result_values = [Fin 5], rewards_cpu = [Fin 1],
        dones_cpu = [Fin 0]\<rparr>
     = Inl IndexError"
  by (simp add: eval_vtrace eval_floats numeral_eq_Suc)

text \<open>
  Two sub-trajectories of two steps, one of them with an episode boundary, with a discount of
  one half.
\<close>

theorem vtrace_zero_ratios_witness:
  "vtrace example_arith (example_config\<lparr>recurrence := 2, batch_size := 4, gamma := 1 / 2\<rparr>) 2
       example_vtrace_input
     = Inr ([Fin 1, Fin 2, Fin 3, Fin 4], [Fin 0, Fin 0, Fin 0, Fin 0],
            [Fin 0, Fin 0, Fin 0, Fin 0])"
proof -
  let ?c = "example_config\<lparr>recurrence := 2, batch_size := 4, gamma := 1 / 2\<rparr>"
  have fin: "\<forall>t<length (result_values example_vtrace_input).
               is_finite (td_error example_arith ?c example_vtrace_input t)"
    by (simp add: example_vtrace_input_def All_less_Suc td_error_def next_value_def Let_def
          eval_floats example_config_def)
  have "vtrace example_arith ?c 2 example_vtrace_input
     = Inr (result_values example_vtrace_input,
            replicate (length (result_values example_vtrace_input)) (Fin 0),
            replicate (length (result_values example_vtrace_input)) (Fin 0))"
    by (rule vtrace_zero_ratios[OF _ _ _ _ _ _ _ _ _ _ _ fin])
      (simp_all add: example_vtrace_input_def eval_floats)
  then show ?thesis by (simp add: example_vtrace_input_def numeral_eq_Suc)
qed

subsection \<open>Checkpoint names and the latest checkpoint\<close>

lemma length_fixw [simp]: "length (fixw k n) = k"
  by (induction k arbitrary: n) simp_all

lemma digit_char_zero: "digit_char 0 = CHR ''0''"
  by code_simp

lemma fixw_zero: "fixw k 0 = replicate k CHR ''0''"
  by (induction k) (simp_all add: digit_char_zero replicate_append_same)

lemma dec_small: "n < 10 \<Longrightarrow> dec n = [digit_char n]"
  by (subst dec.simps) simp

lemma dec_large: "\<not> n < 10 \<Longrightarrow> dec n = dec (n div 10) @ [digit_char (n mod 10)]"
  by (subst dec.simps) simp

lemma zfill_fixw:
  "n < 10 ^ Suc k \<Longrightarrow> replicate (Suc k - length (dec n)) CHR ''0'' @ dec n = fixw (Suc k) n"
proof (induction k arbitrary: n)
  case 0
  then show ?case by (simp add: dec_small)
next
  case (Suc k)
  show ?case
  proof (cases "n < 10")
    case True
    then show ?thesis by (simp add: fixw_zero dec_small)
  next
    case False
    from Suc.prems have "n div 10 < 10 ^ Suc k" by (simp add: less_mult_imp_div_less)
    from Suc.IH[OF this] False show ?thesis
      by (simp add: dec_large)
  qed
qed

lemma digit_char_less: "a < 10 \<Longrightarrow> b < 10 \<Longrightarrow> digit_char a < digit_char b \<longleftrightarrow> a < b"
  by (simp add: digit_char_def less_char_def)

lemma less_append_same_length:
  "xs < ys \<Longrightarrow> length xs = length ys \<Longrightarrow> xs @ u < ys @ (v :: 'a :: linorder list)"
proof (induction xs arbitrary: ys)
  case Nil
  then show ?case by simp
next
  case (Cons x xs)
  then obtain y ys' where ys: "ys = y # ys'" by (cases ys) auto
  with Cons.prems have "x < y \<or> x = y \<and> xs < ys'" by simp
  with Cons.IH[of ys'] Cons.prems ys show ?case by auto
qed

lemma less_prefix_cancel: "p @ xs < p @ ys \<longleftrightarrow> xs < (ys :: 'a :: linorder list)"
  by (induction p) simp_all

lemma fixw_less: "a < b \<Longrightarrow> b < 10 ^ k \<Longrightarrow> fixw k a < fixw k b"
proof (induction k arbitrary: a b)
  case 0
  then show ?case by simp
next
  case (Suc k)
  have le: "a div 10 \<le> b div 10" using Suc.prems(1) by (simp add: div_le_mono)
  show ?case
  proof (cases "a div 10 = b div 10")
    case True
    have "a mod 10 < b mod 10"
      using Suc.prems(1) True by (metis mod_mult_div_eq add_less_cancel_right mult.commute nat_add_left_cancel_less)
    then have "digit_char (a mod 10) < digit_char (b mod 10)" by (simp add: digit_char_less)
    with True show ?thesis by (simp add: less_prefix_cancel)
  next
    case False
    with le have lt: "a div 10 < b div 10" by simp
    from Suc.prems(2) have "b div 10 < 10 ^ k" by (simp add: less_mult_imp_div_less)
    from Suc.IH[OF lt this] show ?thesis by (simp add: less_append_same_length)
  qed
qed

lemma format_09d_fixw: "0 \<le> ts \<Longrightarrow> ts < 10 ^ 9 \<Longrightarrow> format_09d ts = fixw 9 (nat ts)"
proof -
  assume a: "0 \<le> ts" "ts < 10 ^ 9"
  have n: "Suc 8 = 9" by simp
  from a have "nat ts < 10 ^ 9" by (simp add: nat_less_iff)
  then have "nat ts < 10 ^ Suc 8" by (simp only: n)
  from zfill_fixw[OF this] have "replicate (9 - length (dec (nat ts))) CHR ''0'' @ dec (nat ts) = fixw 9 (nat ts)"
    by (simp only: n)
  with a(1) show ?thesis by (simp add: format_09d_def)
qed

lemma checkpoint_name_less:
  assumes "0 \<le> t1" "t1 < t2" "t2 < 10 ^ 9"
  shows "checkpoint_name t1 e1 < checkpoint_name t2 e2"
proof -
  from assms have f: "format_09d t1 = fixw 9 (nat t1)" "format_09d t2 = fixw 9 (nat t2)"
    by (simp_all add: format_09d_fixw)
  from assms have "nat t1 < nat t2" "nat t2 < 10 ^ 9" by (simp_all add: nat_less_iff)
  then have "fixw 9 (nat t1) < fixw 9 (nat t2)" by (rule fixw_less)
  then have "fixw 9 (nat t1) @ (''_'' @ str_int e1 @ ''.pth'')
              < fixw 9 (nat t2) @ (''_'' @ str_int e2 @ ''.pth'')"
    by (rule less_append_same_length) simp
  then show ?thesis
    unfolding checkpoint_name_def f by (simp only: less_prefix_cancel)
qed

lemma get_checkpoints_props:
  "sorted (get_checkpoints d)" "distinct (get_checkpoints d)"
  "set (get_checkpoints d) = {n \<in> fst ` set d. is_checkpoint_name n}"
  by (auto simp: get_checkpoints_def)

lemma sorted_le_last: "sorted xs \<Longrightarrow> x \<in> set xs \<Longrightarrow> x \<le> last (xs :: 'a :: linorder list)"
  by (induction xs) auto

lemma load_checkpoint_last:
  "load_checkpoint d cs =
     (if cs = [] then Inr None
      else case torch_load d (last cs) of Inl e \<Rightarrow> Inl e | Inr ck \<Rightarrow> Inr (Some ck))"
  by (simp add: load_checkpoint_def)

text \<open>
  Claim C6, as amended. \<^verbatim>\<open>get_checkpoints\<close> lists the names that match \<^verbatim>\<open>checkpoint_*\<close> in
  lexicographic order, each once, and \<^verbatim>\<open>load_checkpoint\<close> loads the last name of that list.
  For names written by \<^verbatim>\<open>_save\<close> with \<open>0 \<le> train_step < 10\<^sup>9\<close> the lexicographic order agrees
  with the numeric order of \<open>train_step\<close>, so in a directory whose checkpoint names all have
  that form the selected file is one with the greatest \<open>train_step\<close>.
\<close>

theorem load_checkpoint_latest_train_step:
  assumes produced: "\<forall>n\<in>set (get_checkpoints d).
            \<exists>ts es. 0 \<le> ts \<and> ts < 10 ^ 9 \<and> n = checkpoint_name ts es"
  shows "sorted (get_checkpoints d) \<and> distinct (get_checkpoints d)
     \<and> set (get_checkpoints d) = {n \<in> fst ` set d. is_checkpoint_name n}
     \<and> load_checkpoint d (get_checkpoints d) =
         (if get_checkpoints d = [] then Inr None
          else case torch_load d (last (get_checkpoints d)) of
                 Inl e \<Rightarrow> Inl e | Inr ck \<Rightarrow> Inr (Some ck))
     \<and> (\<forall>t1 e1 t2 e2. 0 \<le> t1 \<and> t1 < t2 \<and> t2 < 10 ^ 9
           \<longrightarrow> checkpoint_name t1 e1 < checkpoint_name t2 e2)
     \<and> (get_checkpoints d \<noteq> [] \<longrightarrow>
          (\<exists>ts es. last (get_checkpoints d) = checkpoint_name ts es \<and> 0 \<le> ts \<and> ts < 10 ^ 9
             \<and> (\<forall>ts' es'. 0 \<le> ts' \<and> ts' < 10 ^ 9
                    \<and> checkpoint_name ts' es' \<in> set (get_checkpoints d) \<longrightarrow> ts' \<le> ts)))"
proof -
  let ?cs = "get_checkpoints d"
  have latest: "\<exists>ts es. last ?cs = checkpoint_name ts es \<and> 0 \<le> ts \<and> ts < 10 ^ 9
             \<and> (\<forall>ts' es'. 0 \<le> ts' \<and> ts' < 10 ^ 9
                    \<and> checkpoint_name ts' es' \<in> set ?cs \<longrightarrow> ts' \<le> ts)"
    if ne: "?cs \<noteq> []"
  proof -
    from ne have "last ?cs \<in> set ?cs" by simp
    with produced obtain ts es where l: "last ?cs = checkpoint_name ts es" "0 \<le> ts" "ts < 10 ^ 9"
      by blast
    have "ts' \<le> ts" if a: "0 \<le> ts'" "ts' < 10 ^ 9" "checkpoint_name ts' es' \<in> set ?cs" for ts' es'
    proof (rule ccontr)
      assume "\<not> ts' \<le> ts"
      then have "ts < ts'" by simp
      with l(2) a(2) have "checkpoint_name ts es < checkpoint_name ts' es'"
        by (intro checkpoint_name_less)
      moreover from sorted_le_last[OF get_checkpoints_props(1) a(3)] l(1)
      have "checkpoint_name ts' es' \<le> checkpoint_name ts es" by simp
      ultimately show False by simp
    qed
    with l show ?thesis by blast
  qed
  have order: "\<forall>t1 e1 t2 e2. 0 \<le> t1 \<and> t1 < t2 \<and> t2 < 10 ^ 9
           \<longrightarrow> checkpoint_name t1 e1 < checkpoint_name t2 e2"
    by (intro allI impI checkpoint_name_less) simp_all
  show ?thesis
    apply (intro conjI)
         apply (rule get_checkpoints_props)
        apply (rule get_checkpoints_props)
       apply (rule get_checkpoints_props)
      apply (rule load_checkpoint_last)
     apply (rule order)
    apply (rule impI)
    apply (erule latest)
    done
qed

lemma digit_chars:
  "digit_char 0 = CHR ''0''" "digit_char 1 = CHR ''1''" "digit_char 2 = CHR ''2''"
  "digit_char 3 = CHR ''3''" "digit_char 4 = CHR ''4''" "digit_char 5 = CHR ''5''"
  "digit_char 6 = CHR ''6''" "digit_char 7 = CHR ''7''" "digit_char 8 = CHR ''8''"
  "digit_char 9 = CHR ''9''" "digit_char (Suc 0) = CHR ''1''"
  by code_simp+

lemma replicate_numeral_unfold: "replicate (numeral k) x = x # replicate (pred_numeral k) x"
  by (simp add: numeral_eq_Suc)

lemmas eval_names =
  checkpoint_name_def format_09d_def str_int_def dec_large dec_small digit_chars
  replicate_numeral_unfold

lemmas eval_save =
  saves.simps save_def get_checkpoint_dict_def torch_save_def os_rename_def dir_write_def
  os_remove_def remove_old_checkpoints.simps get_checkpoints_def is_checkpoint_name_def
  isfile_def load_checkpoint_def torch_load_def example_learner_def example_config_def Let_def

text \<open>
  The claim as stated fails once \<open>train_step\<close> needs ten digits: after a save at
  \<open>train_step = 999999999\<close> and one at \<open>train_step = 1000000000\<close> the ten-digit name sorts first
  and the older checkpoint is the one that is loaded.
\<close>

theorem load_checkpoint_ten_digit_counterexample:
  "(case saves [(999999999, 0), (1000000000, 0)] example_learner of
      Some (Inr st) \<Rightarrow>
        get_checkpoints (checkpoint_dirs st 0)
          = [checkpoint_name 1000000000 0, checkpoint_name 999999999 0]
        \<and> (case load_checkpoint (checkpoint_dirs st 0) (get_checkpoints (checkpoint_dirs st 0)) of
             Inr (Some ck) \<Rightarrow> ck_train_step ck = 999999999
           | _ \<Rightarrow> False)
    | _ \<Rightarrow> False)"
  by (simp add: eval_save eval_names)

text \<open>
  A directory with two checkpoints and a file that does not match the pattern.
\<close>

theorem load_checkpoint_latest_train_step_witness:
  "get_checkpoints example_directory = [checkpoint_name 5 100, checkpoint_name 12 2400]
   \<and> load_checkpoint example_directory (get_checkpoints example_directory)
       = Inr (Some (example_checkpoint 12 2400))
   \<and> checkpoint_name 5 100 < checkpoint_name 12 2400"
proof -
  let ?d = example_directory
  have g: "get_checkpoints ?d = [checkpoint_name 5 100, checkpoint_name 12 2400]"
    by (simp add: example_directory_def get_checkpoints_def is_checkpoint_name_def eval_names)
  have p: "\<forall>n\<in>set (get_checkpoints ?d). \<exists>ts es. 0 \<le> ts \<and> ts < 10 ^ 9 \<and> n = checkpoint_name ts es"
  proof
    fix n assume "n \<in> set (get_checkpoints ?d)"
    with g have "n = checkpoint_name 5 100 \<or> n = checkpoint_name 12 2400" by simp
    then show "\<exists>ts es. 0 \<le> ts \<and> ts < 10 ^ 9 \<and> n = checkpoint_name ts es"
    proof
      assume "n = checkpoint_name 5 100"
      then have "0 \<le> (5::int) \<and> (5::int) < 10 ^ 9 \<and> n = checkpoint_name 5 100" by simp
      then show ?thesis by blast
    next
      assume "n = checkpoint_name 12 2400"
      then have "0 \<le> (12::int) \<and> (12::int) < 10 ^ 9 \<and> n = checkpoint_name 12 2400" by simp
      then show ?thesis by blast
    qed
  qed
  have t: "torch_load ?d (checkpoint_name 12 2400) = Inr (example_checkpoint 12 2400)"
    by (simp add: example_directory_def torch_load_def)
  from load_checkpoint_latest_train_step[OF p]
  have l: "load_checkpoint ?d (get_checkpoints ?d) =
         (if get_checkpoints ?d = [] then Inr None
          else case torch_load ?d (last (get_checkpoints ?d)) of
                 Inl e \<Rightarrow> Inl e | Inr ck \<Rightarrow> Inr (Some ck))"
    and o: "\<forall>t1 e1 t2 e2. 0 \<le> t1 \<and> t1 < t2 \<and> t2 < 10 ^ 9
           \<longrightarrow> checkpoint_name t1 e1 < checkpoint_name t2 e2"
    by blast+
  from o have "checkpoint_name 5 100 < checkpoint_name 12 2400" by simp
  moreover from l have "load_checkpoint ?d (get_checkpoints ?d) = Inr (Some (example_checkpoint 12 2400))"
    unfolding g by (simp add: t)
  ultimately show ?thesis using g by simp
qed

subsection \<open>Loading a checkpoint\<close>

text \<open>
  Claim C7. When \<^verbatim>\<open>load_from_checkpoint\<close> finds a checkpoint in the directory of the policy it
  is called with, the model parameters, the optimizer state and \<open>kl_coeff\<close> take the values
  stored in that checkpoint. For another policy's id the learner's \<open>train_step\<close> and
  \<open>env_steps\<close> (and every other field) stay as they are; for the learner's own id they are
  overwritten from the checkpoint too.
\<close>

theorem load_from_checkpoint_cross_policy:
  assumes "load_checkpoint (checkpoint_dirs st pid) (get_checkpoints (checkpoint_dirs st pid))
             = Inr (Some ck)"
  shows "(pid \<noteq> policy_id st \<longrightarrow>
            load_from_checkpoint st pid =
              Inr (st\<lparr>kl_coeff := ck_kl_coeff ck, actor_critic := ck_model ck,
                      optimizer := ck_optimizer ck\<rparr>))
     \<and> (pid = policy_id st \<longrightarrow>
            load_from_checkpoint st pid =
              Inr (st\<lparr>train_step := ck_train_step ck, env_steps := ck_env_steps ck,
                      kl_coeff := ck_kl_coeff ck, actor_critic := ck_model ck,
                      optimizer := ck_optimizer ck\<rparr>))
     \<and> (\<exists>st'. load_from_checkpoint st pid = Inr st'
            \<and> actor_critic st' = ck_model ck \<and> optimizer st' = ck_optimizer ck
            \<and> kl_coeff st' = ck_kl_coeff ck
            \<and> (pid \<noteq> policy_id st \<longrightarrow>
                  train_step st' = train_step st \<and> env_steps st' = env_steps st)
            \<and> (pid = policy_id st \<longrightarrow>
                  train_step st' = ck_train_step ck \<and> env_steps st' = ck_env_steps ck))"
proof -
  have "load_from_checkpoint st pid = Inr (load_state st ck (pid = policy_id st))"
    using assms by (simp add: load_from_checkpoint_def Let_def)
  then show ?thesis by (cases "pid = policy_id st") (simp_all add: load_state_def Let_def)
qed

text \<open>
  A learner of policy 0 at \<open>train_step = 100\<close>, \<open>env_steps = 10000\<close> loads a checkpoint saved at
  \<open>train_step = 80\<close>, \<open>env_steps = 8000\<close>: from policy 1, and from its own directory.
\<close>

theorem load_from_checkpoint_cross_policy_witness:
  "load_checkpoint (checkpoint_dirs pbt_learner 1) (get_checkpoints (checkpoint_dirs pbt_learner 1))
     = Inr (Some (example_checkpoint 80 8000))
   \<and> load_from_checkpoint pbt_learner 1 =
       Inr (pbt_learner\<lparr>kl_coeff := Fin (3 / 10), actor_critic := 7,
              optimizer := \<lparr>opt_lr = 1 / 1000, opt_betas = (9 / 10, 99 / 100), opt_state = 8\<rparr>\<rparr>)
   \<and> train_step pbt_learner = 100 \<and> env_steps pbt_learner = 10000
   \<and> load_from_checkpoint pbt_learner 0 =
       Inr (pbt_learner\<lparr>train_step := 80, env_steps := 8000, kl_coeff := Fin (3 / 10),
              actor_critic := 7,
              optimizer := \<lparr>opt_lr = 1 / 1000, opt_betas = (9 / 10, 99 / 100), opt_state = 8\<rparr>\<rparr>)"
proof -
  have l: "load_checkpoint (checkpoint_dirs pbt_learner p) (get_checkpoints (checkpoint_dirs pbt_learner p))
     = Inr (Some (example_checkpoint 80 8000))" for p
    by (simp add: pbt_learner_def load_checkpoint_def get_checkpoints_def is_checkpoint_name_def
          torch_load_def eval_names)
  have p: "policy_id pbt_learner = 0" "train_step pbt_learner = 100" "env_steps pbt_learner = 10000"
    by (simp_all add: pbt_learner_def example_learner_def)
  from load_from_checkpoint_cross_policy[OF l[of 1]] load_from_checkpoint_cross_policy[OF l[of 0]] l[of 1] p
  show ?thesis by (simp add: example_checkpoint_def)
qed

subsection \<open>Saving and rotating checkpoints\<close>

lemma get_checkpoints_set:
  "get_checkpoints d = sorted_list_of_set {n \<in> fst ` set d. is_checkpoint_name n}"
proof -
  have "{n \<in> fst ` set d. is_checkpoint_name n} = set (filter is_checkpoint_name (map fst d))"
    by auto
  then show ?thesis by (simp only: get_checkpoints_def sorted_list_of_set_sort_remdups)
qed

lemma get_checkpoints_filter:
  "get_checkpoints (filter (\<lambda>p. Q (fst p)) d) = filter Q (get_checkpoints d)"
proof -
  have "map fst (filter (\<lambda>p. Q (fst p)) d) = filter Q (map fst d)"
    by (induction d) simp_all
  then have "filter is_checkpoint_name (map fst (filter (\<lambda>p. Q (fst p)) d))
               = filter Q (filter is_checkpoint_name (map fst d))"
    by (simp add: conj_commute)
  then show ?thesis
    by (simp only: get_checkpoints_def remdups_filter filter_sort)
qed

lemma get_checkpoints_os_remove:
  assumes "get_checkpoints d = x # rest"
  shows "get_checkpoints (os_remove x d) = rest"
proof -
  have "distinct (x # rest)" using get_checkpoints_props(2)[of d] assms by simp
  then have "filter (\<lambda>n. n \<noteq> x) (x # rest) = rest" by (auto simp: filter_id_conv)
  with get_checkpoints_filter[of "\<lambda>n. n \<noteq> x" d] assms show ?thesis
    by (simp add: os_remove_def)
qed

lemma remove_old_checkpoints_result:
  "remove_old_checkpoints keep d = Some r \<Longrightarrow>
     (\<forall>d'. r = Inr d' \<longrightarrow>
        int (length (get_checkpoints d')) \<le> keep
        \<and> (\<exists>k. d' = filter (\<lambda>p. fst p \<notin> set (take k (get_checkpoints d))) d
              \<and> get_checkpoints d' = drop k (get_checkpoints d)))"
proof (induct rule: remove_old_checkpoints.raw_induct[rotated 1, consumes 1])
  case (1 rec keep d r)
  show ?case
  proof (cases "keep < int (length (get_checkpoints d))")
    case False
    with 1(2) have r: "r = Inr d" by simp
    have "d = filter (\<lambda>p. fst p \<notin> set (take 0 (get_checkpoints d))) d
              \<and> get_checkpoints d = drop 0 (get_checkpoints d)" by simp
    with False r show ?thesis by (metis sum.inject(2) not_less)
  next
    case True
    show ?thesis
    proof (cases "get_checkpoints d")
      case Nil
      with True 1(2) show ?thesis by auto
    next
      case (Cons x rest)
      show ?thesis
      proof (cases "isfile d x")
        case False
        with True Cons 1(2) have "rec keep d = Some r" by simp
        from 1(1)[OF this] show ?thesis .
      next
        case f: True
        with True Cons 1(2) have "rec keep (os_remove x d) = Some r" by simp
        from 1(1)[OF this] have ih: "\<forall>d'. r = Inr d' \<longrightarrow>
           int (length (get_checkpoints d')) \<le> keep
           \<and> (\<exists>k. d' = filter (\<lambda>p. fst p \<notin> set (take k rest)) (os_remove x d)
                 \<and> get_checkpoints d' = drop k rest)"
          by (simp only: get_checkpoints_os_remove[OF Cons])
        show ?thesis
        proof (intro allI impI)
          fix d' assume "r = Inr d'"
          with ih obtain k where le: "int (length (get_checkpoints d')) \<le> keep"
            and d': "d' = filter (\<lambda>p. fst p \<notin> set (take k rest)) (os_remove x d)"
            and g: "get_checkpoints d' = drop k rest" by blast
          from d' have "d' = filter (\<lambda>p. fst p \<notin> set (take (Suc k) (get_checkpoints d))) d"
            by (auto simp: os_remove_def Cons intro: filter_cong)
          moreover from g have "get_checkpoints d' = drop (Suc k) (get_checkpoints d)"
            by (simp add: Cons)
          ultimately show "int (length (get_checkpoints d')) \<le> keep
             \<and> (\<exists>k. d' = filter (\<lambda>p. fst p \<notin> set (take k (get_checkpoints d))) d
                   \<and> get_checkpoints d' = drop k (get_checkpoints d))"
            using le by blast
        qed
      qed
    qed
  qed
qed

lemma save_result:
  assumes "save st = Some (Inr st')"
  shows "int (length (get_checkpoints (checkpoint_dirs st' (policy_id st)))) \<le> keep_checkpoints (cfg st)
     \<and> (\<exists>d1 d2 k.
           torch_save (checkpoint_dirs st (policy_id st)) ''checkpoint_tmp'' (get_checkpoint_dict st)
             = Inr d1
         \<and> os_rename d1 ''checkpoint_tmp'' (checkpoint_name (train_step st) (env_steps st)) = Inr d2
         \<and> st' = st\<lparr>checkpoint_dirs := (checkpoint_dirs st)
                     (policy_id st := filter (\<lambda>p. fst p \<notin> set (take k (get_checkpoints d2))) d2)\<rparr>
         \<and> get_checkpoints (checkpoint_dirs st' (policy_id st)) = drop k (get_checkpoints d2))"
proof -
  from assms obtain d1 d2 d3
    where t: "torch_save (checkpoint_dirs st (policy_id st)) ''checkpoint_tmp'' (get_checkpoint_dict st)
                = Inr d1"
      and r: "os_rename d1 ''checkpoint_tmp'' (checkpoint_name (train_step st) (env_steps st)) = Inr d2"
      and ro: "remove_old_checkpoints (keep_checkpoints (cfg st)) d2 = Some (Inr d3)"
      and s: "st' = st\<lparr>checkpoint_dirs := (checkpoint_dirs st)(policy_id st := d3)\<rparr>"
    by (auto simp: save_def Let_def split: sum.splits option.splits)
  from remove_old_checkpoints_result[OF ro] obtain k
    where le: "int (length (get_checkpoints d3)) \<le> keep_checkpoints (cfg st)"
      and d3: "d3 = filter (\<lambda>p. fst p \<notin> set (take k (get_checkpoints d2))) d2"
      and g: "get_checkpoints d3 = drop k (get_checkpoints d2)" by blast
  from s have c: "checkpoint_dirs st' (policy_id st) = d3" by simp
  from s d3 have s': "st' = st\<lparr>checkpoint_dirs := (checkpoint_dirs st)
                     (policy_id st := filter (\<lambda>p. fst p \<notin> set (take k (get_checkpoints d2))) d2)\<rparr>"
    by simp
  from le c have 1: "int (length (get_checkpoints (checkpoint_dirs st' (policy_id st))))
      \<le> keep_checkpoints (cfg st)" by simp
  from g c have 2: "get_checkpoints (checkpoint_dirs st' (policy_id st)) = drop k (get_checkpoints d2)"
    by simp
  show ?thesis
    apply (rule conjI[OF 1])
    apply (rule exI[of _ d1], rule exI[of _ d2], rule exI[of _ k])
    apply (intro conjI t r s' 2)
    done
qed

lemma checkpoint_name_not_tmp: "checkpoint_name ts es \<noteq> ''checkpoint_tmp''"
proof
  assume "checkpoint_name ts es = ''checkpoint_tmp''"
  then have "last (checkpoint_name ts es) = last ''checkpoint_tmp''" by simp
  then show False by (simp add: checkpoint_name_def)
qed

lemma map_of_no_directory:
  "\<forall>p\<in>set d. snd p \<noteq> Directory \<Longrightarrow> map_of d n \<noteq> Some Directory"
proof
  assume a: "\<forall>p\<in>set d. snd p \<noteq> Directory" and "map_of d n = Some Directory"
  then have "(n, Directory) \<in> set d" by (rule_tac map_of_SomeD)
  with a show False by force
qed

lemma save_without_rotation:
  fixes st :: "('m, 'o) learner"
  defines "d \<equiv> checkpoint_dirs st (policy_id st)"
  defines "d2 \<equiv> dir_write (checkpoint_name (train_step st) (env_steps st))
                   (Checkpoint_File (get_checkpoint_dict st)) d"
  assumes nodir: "\<forall>p\<in>set d. snd p \<noteq> Directory"
    and notmp: "''checkpoint_tmp'' \<notin> fst ` set d"
    and room: "int (length (get_checkpoints d)) < keep_checkpoints (cfg st)"
  shows "save st = Some (Inr (st\<lparr>checkpoint_dirs := (checkpoint_dirs st)(policy_id st := d2)\<rparr>))"
    and "\<forall>p\<in>set d2. snd p \<noteq> Directory"
    and "fst ` set d2 = insert (checkpoint_name (train_step st) (env_steps st)) (fst ` set d)"
    and "length (get_checkpoints d2) \<le> Suc (length (get_checkpoints d))"
proof -
  let ?f = "checkpoint_name (train_step st) (env_steps st)"
  let ?e = "Checkpoint_File (get_checkpoint_dict st)"
  let ?d1 = "dir_write ''checkpoint_tmp'' ?e d"
  from notmp have fd: "filter (\<lambda>p. fst p \<noteq> ''checkpoint_tmp'') d = d"
    by (force simp: filter_id_conv)
  have t: "torch_save d ''checkpoint_tmp'' (get_checkpoint_dict st) = Inr ?d1"
    using map_of_no_directory[OF nodir] by (simp add: torch_save_def)
  have nodir1: "\<forall>p\<in>set ?d1. snd p \<noteq> Directory" using nodir by (auto simp: dir_write_def)
  have rm: "os_remove ''checkpoint_tmp'' ?d1 = d" by (simp add: os_remove_def dir_write_def fd)
  have m1: "map_of ?d1 ''checkpoint_tmp'' = Some ?e" by (simp add: dir_write_def)
  have m2: "map_of ?d1 ?f \<noteq> Some Directory" using nodir1 by (rule map_of_no_directory)
  have r: "os_rename ?d1 ''checkpoint_tmp'' ?f = Inr d2"
    by (simp add: os_rename_def m1 m2 rm d2_def)
  show nodir2: "\<forall>p\<in>set d2. snd p \<noteq> Directory" using nodir by (auto simp: d2_def dir_write_def)
  show names: "fst ` set d2 = insert ?f (fst ` set d)"
    by (auto simp: d2_def dir_write_def image_iff)
  have "set (get_checkpoints d2) \<subseteq> insert ?f (set (get_checkpoints d))"
    using names by (auto simp: get_checkpoints_props(3))
  then have "card (set (get_checkpoints d2)) \<le> card (insert ?f (set (get_checkpoints d)))"
    by (intro card_mono) simp_all
  also have "\<dots> \<le> Suc (card (set (get_checkpoints d)))" by (simp add: card_insert_le_m1)
  finally show len: "length (get_checkpoints d2) \<le> Suc (length (get_checkpoints d))"
    by (simp add: distinct_card get_checkpoints_props(2))
  with room have "\<not> keep_checkpoints (cfg st) < int (length (get_checkpoints d2))" by simp
  then have ro: "remove_old_checkpoints (keep_checkpoints (cfg st)) d2 = Some (Inr d2)"
    by (subst remove_old_checkpoints.simps) simp
  show "save st = Some (Inr (st\<lparr>checkpoint_dirs := (checkpoint_dirs st)(policy_id st := d2)\<rparr>))"
    using t r ro by (simp add: save_def Let_def d_def[symmetric])
qed

lemma saves_within_keep:
  "\<forall>p\<in>set (checkpoint_dirs st (policy_id st)). snd p \<noteq> Directory \<Longrightarrow>
   ''checkpoint_tmp'' \<notin> fst ` set (checkpoint_dirs st (policy_id st)) \<Longrightarrow>
   int (length (get_checkpoints (checkpoint_dirs st (policy_id st)))) + int (length xs)
     \<le> keep_checkpoints (cfg st) \<Longrightarrow>
   \<exists>st'. saves xs st = Some (Inr st') \<and> policy_id st' = policy_id st \<and> cfg st' = cfg st
      \<and> fst ` set (checkpoint_dirs st' (policy_id st))
          = fst ` set (checkpoint_dirs st (policy_id st))
              \<union> (\<lambda>(ts, es). checkpoint_name ts es) ` set xs"
proof (induction xs arbitrary: st)
  case Nil
  then show ?case by simp
next
  case (Cons x xs)
  obtain ts es where x: "x = (ts, es)" by (cases x)
  let ?st0 = "st\<lparr>train_step := ts, env_steps := es\<rparr>"
  let ?d = "checkpoint_dirs st (policy_id st)"
  let ?d2 = "dir_write (checkpoint_name ts es) (Checkpoint_File (get_checkpoint_dict ?st0)) ?d"
  let ?st1 = "?st0\<lparr>checkpoint_dirs := (checkpoint_dirs ?st0)(policy_id ?st0 := ?d2)\<rparr>"
  from Cons.prems(3) have room: "int (length (get_checkpoints (checkpoint_dirs ?st0 (policy_id ?st0))))
      < keep_checkpoints (cfg ?st0)" by simp
  from Cons.prems(1,2) have p: "\<forall>p\<in>set (checkpoint_dirs ?st0 (policy_id ?st0)). snd p \<noteq> Directory"
    "''checkpoint_tmp'' \<notin> fst ` set (checkpoint_dirs ?st0 (policy_id ?st0))" by simp_all
  note sw = save_without_rotation[OF p room]
  from sw(1) have s: "save ?st0 = Some (Inr ?st1)" by simp
  from sw(2) have a1: "\<forall>p\<in>set (checkpoint_dirs ?st1 (policy_id ?st1)). snd p \<noteq> Directory" by simp
  from sw(3) have nm: "fst ` set ?d2 = insert (checkpoint_name ts es) (fst ` set ?d)" by simp
  with Cons.prems(2) checkpoint_name_not_tmp[of ts es]
  have a2: "''checkpoint_tmp'' \<notin> fst ` set (checkpoint_dirs ?st1 (policy_id ?st1))" by auto
  from sw(4) Cons.prems(3)
  have a3: "int (length (get_checkpoints (checkpoint_dirs ?st1 (policy_id ?st1)))) + int (length xs)
     \<le> keep_checkpoints (cfg ?st1)" by simp
  from Cons.IH[OF a1 a2 a3] obtain st' where st': "saves xs ?st1 = Some (Inr st')"
    "policy_id st' = policy_id st" "cfg st' = cfg st"
    "fst ` set (checkpoint_dirs st' (policy_id st)) = fst ` set ?d2 \<union> (\<lambda>(ts, es). checkpoint_name ts es) ` set xs"
    by auto
  from st'(4) nm have "fst ` set (checkpoint_dirs st' (policy_id st))
      = fst ` set ?d \<union> (\<lambda>(ts, es). checkpoint_name ts es) ` set (x # xs)"
    by (auto simp: x)
  with st'(1,2,3) s show ?case by (simp add: x)
qed

lemma sorted_take_less_drop:
  assumes "sorted xs" "distinct xs" "a \<in> set (take k xs)" "b \<in> set (drop k xs)"
  shows "a < (b :: 'a :: linorder)"
proof -
  have xs: "xs = take k xs @ drop k xs" by simp
  from assms(1) have "sorted (take k xs @ drop k xs)" by simp
  then have "\<forall>x\<in>set (take k xs). \<forall>y\<in>set (drop k xs). x \<le> y"
    unfolding sorted_append by blast
  with assms(3,4) have "a \<le> b" by blast
  moreover from assms(2) have "distinct (take k xs @ drop k xs)" by simp
  then have "set (take k xs) \<inter> set (drop k xs) = {}" unfolding distinct_append by blast
  with assms(3,4) have "a \<noteq> b" by blast
  ultimately show ?thesis by simp
qed

text \<open>
  Claim C5, as amended. After every call of \<^verbatim>\<open>_save\<close> that returns, at most \<open>keep_checkpoints\<close>
  names of the policy's checkpoint directory match \<^verbatim>\<open>checkpoint_*\<close>; the directory is the one
  left by the write and the rename, less the \<open>k\<close> lexicographically smallest matching names, for
  some \<open>k\<close>: every name removed sorts before every name kept, and nothing else of the learner
  changes. Among names written by \<^verbatim>\<open>_save\<close> with \<open>0 \<le> train_step < 10\<^sup>9\<close> the names removed are
  the oldest: none has a greater \<open>train_step\<close> than a name that is kept. Starting from an empty
  directory, any \<open>keep_checkpoints\<close> or fewer successive saves (so the first
  \<open>keep_checkpoints - 1\<close> in particular) return and leave every name they wrote in the
  directory: none of them deletes anything.
\<close>

theorem save_rotation:
  "(save st = Some (Inr st') \<longrightarrow>
      int (length (get_checkpoints (checkpoint_dirs st' (policy_id st)))) \<le> keep_checkpoints (cfg st)
      \<and> (\<exists>d1 d2 k.
            torch_save (checkpoint_dirs st (policy_id st)) ''checkpoint_tmp'' (get_checkpoint_dict st)
              = Inr d1
          \<and> os_rename d1 ''checkpoint_tmp'' (checkpoint_name (train_step st) (env_steps st)) = Inr d2
          \<and> st' = st\<lparr>checkpoint_dirs := (checkpoint_dirs st)
                      (policy_id st := filter (\<lambda>p. fst p \<notin> set (take k (get_checkpoints d2))) d2)\<rparr>
          \<and> get_checkpoints (checkpoint_dirs st' (policy_id st)) = drop k (get_checkpoints d2)
          \<and> (\<forall>a b. a \<in> set (take k (get_checkpoints d2))
                    \<and> b \<in> set (get_checkpoints (checkpoint_dirs st' (policy_id st)))
                 \<longrightarrow> a < b)
          \<and> (\<forall>ts es ts' es'. 0 \<le> ts' \<and> ts < 10 ^ 9
                    \<and> checkpoint_name ts es \<in> set (take k (get_checkpoints d2))
                    \<and> checkpoint_name ts' es'
                         \<in> set (get_checkpoints (checkpoint_dirs st' (policy_id st)))
                 \<longrightarrow> ts \<le> ts')))
   \<and> (checkpoint_dirs st (policy_id st) = [] \<and> int (length xs) \<le> keep_checkpoints (cfg st) \<longrightarrow>
        (\<exists>st''. saves xs st = Some (Inr st'')
           \<and> fst ` set (checkpoint_dirs st'' (policy_id st))
               = (\<lambda>(ts, es). checkpoint_name ts es) ` set xs))"
proof (intro conjI impI)
  assume "save st = Some (Inr st')"
  from save_result[OF this]
  show "int (length (get_checkpoints (checkpoint_dirs st' (policy_id st)))) \<le> keep_checkpoints (cfg st)"
    by blast
  from save_result[OF \<open>save st = Some (Inr st')\<close>] obtain d1 d2 k
    where t: "torch_save (checkpoint_dirs st (policy_id st)) ''checkpoint_tmp''
                (get_checkpoint_dict st) = Inr d1"
      and r: "os_rename d1 ''checkpoint_tmp'' (checkpoint_name (train_step st) (env_steps st))
                = Inr d2"
      and s: "st' = st\<lparr>checkpoint_dirs := (checkpoint_dirs st)
                      (policy_id st := filter (\<lambda>p. fst p \<notin> set (take k (get_checkpoints d2))) d2)\<rparr>"
      and g: "get_checkpoints (checkpoint_dirs st' (policy_id st)) = drop k (get_checkpoints d2)"
    by blast
  let ?kept = "get_checkpoints (checkpoint_dirs st' (policy_id st))"
  have less: "a < b" if "a \<in> set (take k (get_checkpoints d2))" "b \<in> set ?kept" for a b
    using sorted_take_less_drop[OF get_checkpoints_props(1,2), of a k d2 b] that g by simp
  have o: "\<forall>a b. a \<in> set (take k (get_checkpoints d2)) \<and> b \<in> set ?kept \<longrightarrow> a < b"
    using less by blast
  have older: "ts \<le> ts'"
    if a: "0 \<le> ts'" "ts < 10 ^ 9" "checkpoint_name ts es \<in> set (take k (get_checkpoints d2))"
      "checkpoint_name ts' es' \<in> set ?kept" for ts es ts' es'
  proof (rule ccontr)
    assume "\<not> ts \<le> ts'"
    then have "ts' < ts" by simp
    with a(1,2) have "checkpoint_name ts' es' < checkpoint_name ts es"
      by (intro checkpoint_name_less)
    moreover from less[OF a(3,4)] have "checkpoint_name ts es < checkpoint_name ts' es'" .
    ultimately show False by simp
  qed
  have n: "\<forall>ts es ts' es'. 0 \<le> ts' \<and> ts < 10 ^ 9
                    \<and> checkpoint_name ts es \<in> set (take k (get_checkpoints d2))
                    \<and> checkpoint_name ts' es' \<in> set ?kept
                 \<longrightarrow> ts \<le> ts'"
    using older by blast
  show "\<exists>d1 d2 k.
            torch_save (checkpoint_dirs st (policy_id st)) ''checkpoint_tmp'' (get_checkpoint_dict st)
              = Inr d1
          \<and> os_rename d1 ''checkpoint_tmp'' (checkpoint_name (train_step st) (env_steps st)) = Inr d2
          \<and> st' = st\<lparr>checkpoint_dirs := (checkpoint_dirs st)
                      (policy_id st := filter (\<lambda>p. fst p \<notin> set (take k (get_checkpoints d2))) d2)\<rparr>
          \<and> get_checkpoints (checkpoint_dirs st' (policy_id st)) = drop k (get_checkpoints d2)
          \<and> (\<forall>a b. a \<in> set (take k (get_checkpoints d2))
                    \<and> b \<in> set (get_checkpoints (checkpoint_dirs st' (policy_id st)))
                 \<longrightarrow> a < b)
          \<and> (\<forall>ts es ts' es'. 0 \<le> ts' \<and> ts < 10 ^ 9
                    \<and> checkpoint_name ts es \<in> set (take k (get_checkpoints d2))
                    \<and> checkpoint_name ts' es'
                         \<in> set (get_checkpoints (checkpoint_dirs st' (policy_id st)))
                 \<longrightarrow> ts \<le> ts')"
    apply (rule exI[of _ d1], rule exI[of _ d2], rule exI[of _ k])
    apply (intro conjI t r s g o n)
    done
next
  assume a: "checkpoint_dirs st (policy_id st) = [] \<and> int (length xs) \<le> keep_checkpoints (cfg st)"
  then have e: "checkpoint_dirs st (policy_id st) = []" by simp
  have "\<exists>st'. saves xs st = Some (Inr st') \<and> policy_id st' = policy_id st \<and> cfg st' = cfg st
      \<and> fst ` set (checkpoint_dirs st' (policy_id st))
          = fst ` set (checkpoint_dirs st (policy_id st))
              \<union> (\<lambda>(ts, es). checkpoint_name ts es) ` set xs"
    by (rule saves_within_keep) (use a in \<open>simp_all add: e get_checkpoints_def\<close>)
  then show "\<exists>st''. saves xs st = Some (Inr st'')
           \<and> fst ` set (checkpoint_dirs st'' (policy_id st))
               = (\<lambda>(ts, es). checkpoint_name ts es) ` set xs"
    by (auto simp: e)
qed

text \<open>
  The claim as stated fails once \<open>train_step\<close> needs ten digits. With \<open>keep_checkpoints = 3\<close>
  and the checkpoints of steps 999999997 to 999999999 in the directory, the save at step
  1000000000 writes a name that sorts first, and the rotation deletes the file just written:
  the newest checkpoint, not the oldest.
\<close>

theorem save_rotation_ten_digit_counterexample:
  "(case saves [(999999997, 0), (999999998, 0), (999999999, 0), (1000000000, 0)] example_learner of
      Some (Inr st) \<Rightarrow>
        get_checkpoints (checkpoint_dirs st 0)
          = [checkpoint_name 999999997 0, checkpoint_name 999999998 0, checkpoint_name 999999999 0]
        \<and> checkpoint_name 1000000000 0 \<notin> fst ` set (checkpoint_dirs st 0)
    | _ \<Rightarrow> False)"
  by (simp add: eval_save eval_names)

text \<open>
  With \<open>keep_checkpoints = 3\<close>: five saves leave the checkpoints of steps 3, 4 and 5; the fourth
  save, which deletes the oldest file, leaves three names, those of steps 2, 3 and 4; the first
  two saves delete nothing.
\<close>

theorem save_rotation_witness:
  "get_checkpoints (checkpoint_dirs
       (after_saves [(1, 10), (2, 20), (3, 30), (4, 40), (5, 50)] example_learner) 0)
     = [checkpoint_name 3 30, checkpoint_name 4 40, checkpoint_name 5 50]
   \<and> int (length (get_checkpoints (checkpoint_dirs
         (after_saves [(1, 10), (2, 20), (3, 30), (4, 40)] example_learner) 0))) \<le> 3
   \<and> get_checkpoints (checkpoint_dirs
         (after_saves [(1, 10), (2, 20), (3, 30), (4, 40)] example_learner) 0)
       = [checkpoint_name 2 20, checkpoint_name 3 30, checkpoint_name 4 40]
   \<and> fst ` set (checkpoint_dirs (after_saves [(1, 10), (2, 20)] example_learner) 0)
       = {checkpoint_name 1 10, checkpoint_name 2 20}"
proof -
  let ?s3 = "after_saves [(1, 10), (2, 20), (3, 30)] example_learner"
  let ?s4 = "after_saves [(1, 10), (2, 20), (3, 30), (4, 40)] example_learner"
  have five: "get_checkpoints (checkpoint_dirs
       (after_saves [(1, 10), (2, 20), (3, 30), (4, 40), (5, 50)] example_learner) 0)
     = [checkpoint_name 3 30, checkpoint_name 4 40, checkpoint_name 5 50]"
    by (simp add: after_saves_def eval_save eval_names)
  have kept: "get_checkpoints (checkpoint_dirs ?s4 0)
       = [checkpoint_name 2 20, checkpoint_name 3 30, checkpoint_name 4 40]"
    by (simp add: after_saves_def eval_save eval_names)
  have step: "save (?s3\<lparr>train_step := 4, env_steps := 40\<rparr>) = Some (Inr ?s4)"
    by (simp add: after_saves_def eval_save eval_names)
  have c: "policy_id (?s3\<lparr>train_step := 4, env_steps := 40\<rparr>) = 0"
    "keep_checkpoints (cfg (?s3\<lparr>train_step := 4, env_steps := 40\<rparr>)) = 3"
    by (simp_all add: after_saves_def eval_save eval_names)
  from save_rotation[of "?s3\<lparr>train_step := 4, env_steps := 40\<rparr>" ?s4 "[]",
      THEN conjunct1, THEN mp, OF step, THEN conjunct1]
  have four: "int (length (get_checkpoints (checkpoint_dirs ?s4 0))) \<le> 3"
    unfolding c .
  have e: "checkpoint_dirs example_learner (policy_id example_learner) = []
      \<and> int (length [(1::int, 10::int), (2, 20)]) \<le> keep_checkpoints (cfg example_learner)"
    by (simp add: example_learner_def example_config_def)
  from save_rotation[of example_learner example_learner "[(1, 10), (2, 20)]",
      THEN conjunct2, THEN mp, OF e]
  obtain st'' where s: "saves [(1, 10), (2, 20)] example_learner = Some (Inr st'')"
    and n: "fst ` set (checkpoint_dirs st'' (policy_id example_learner))
               = (\<lambda>(ts, es). checkpoint_name ts es) ` set [(1, 10), (2, 20)]"
    by blast
  from s have "after_saves [(1, 10), (2, 20)] example_learner = st''" by (simp add: after_saves_def)
  with n have two: "fst ` set (checkpoint_dirs (after_saves [(1, 10), (2, 20)] example_learner) 0)
       = {checkpoint_name 1 10, checkpoint_name 2 20}"
    by (simp add: example_learner_def)
  from five four kept two show ?thesis by blast
qed

subsection \<open>Training and the KL coefficient\<close>

lemma training_frame_refl [simp]: "training_frame st st"
  by (simp add: training_frame_def)

lemma training_frame_trans:
  "training_frame a b \<Longrightarrow> training_frame b c \<Longrightarrow> training_frame a c"
  by (simp add: training_frame_def)

lemma save_frame:
  "save st = Some (Inr st') \<Longrightarrow> train_step st' = train_step st \<and> training_frame st st'"
  by (auto simp: save_def Let_def training_frame_def split: sum.splits option.splits)

lemma maybe_save_frame:
  "maybe_save ex st = Some (Inr st') \<Longrightarrow> train_step st' = train_step st \<and> training_frame st st'"
  by (auto simp: maybe_save_def Let_def training_frame_def dest!: save_frame
      split: sum.splits option.splits if_splits)

lemma after_optimizer_step_frame:
  "after_optimizer_step ex st = Some (Inr st') \<Longrightarrow>
     train_step st' = train_step st + 1 \<and> training_frame st st'"
  by (auto simp: after_optimizer_step_def training_frame_def dest!: maybe_save_frame)

lemma minibatch_loop_result:
  "minibatch_loop ex buf mbs (st, kl, n) = Some (Inr (st', kl', n')) \<Longrightarrow>
     train_step st' = train_step st + int (length mbs) \<and> n' = n + length mbs
     \<and> training_frame st st'"
proof (induction mbs arbitrary: st kl n)
  case Nil
  then show ?case by simp
next
  case (Cons ix mbs)
  from Cons.prems obtain m opt k st1
    where u: "minibatch_update ex st buf ix = Inr (m, opt, k)"
      and a: "after_optimizer_step ex (st\<lparr>actor_critic := m, optimizer := opt\<rparr>) = Some (Inr st1)"
      and l: "minibatch_loop ex buf mbs (st1, Float32_tensor k, n + 1) = Some (Inr (st', kl', n'))"
    by (auto split: sum.splits option.splits prod.splits)
  from after_optimizer_step_frame[OF a]
  have s1: "train_step st1 = train_step st + 1" and f1: "training_frame st st1"
    by (simp_all add: training_frame_def)
  from Cons.IH[OF l] s1 f1 show ?case
    by (auto intro: training_frame_trans)
qed

lemma sections_nonempty: "n > 0 \<Longrightarrow> sections k n xs \<noteq> []"
  by (cases n) simp_all

lemma get_minibatches_nonempty:
  "get_minibatches c perm rng E = Inr (mbs, rng') \<Longrightarrow> mbs \<noteq> []"
  by (auto simp: get_minibatches_def np_split_def Let_def sections_nonempty
      split: option.splits sum.splits if_splits)

lemma epoch_loop_result:
  "epoch_loop ex buf E k (st, kl, n) = Some (Inr (st', kl', n')) \<Longrightarrow>
     train_step st' = train_step st + int (n' - n) \<and> n + k \<le> n' \<and> training_frame st st'"
proof (induction k arbitrary: st kl n)
  case 0
  then show ?case by simp
next
  case (Suc k)
  from Suc.prems obtain mbs rng st1 kl1 n1
    where g: "get_minibatches (cfg st) (random_permutation ex) (np_random_state st) E = Inr (mbs, rng)"
      and m: "minibatch_loop ex buf mbs (st\<lparr>np_random_state := rng\<rparr>, kl, n) = Some (Inr (st1, kl1, n1))"
      and e: "epoch_loop ex buf E k (st1, kl1, n1) = Some (Inr (st', kl', n'))"
    by (auto split: sum.splits option.splits prod.splits)
  from get_minibatches_nonempty[OF g] have ne: "length mbs > 0" by simp
  from minibatch_loop_result[OF m]
  have s1: "train_step st1 = train_step st + int (length mbs)" and n1: "n1 = n + length mbs"
    and f1: "training_frame st st1" by (simp_all add: training_frame_def)
  from Suc.IH[OF e] have s': "train_step st' = train_step st1 + int (n' - n1)"
    and le: "n1 + k \<le> n'" and f': "training_frame st1 st'" by simp_all
  from ne have "length mbs \<ge> 1" by (cases mbs) simp_all
  with n1 le have le': "n + Suc k \<le> n'" by simp
  from n1 le have "int (n' - n) = int (length mbs) + int (n' - n1)" by simp
  with s1 s' have ts: "train_step st' = train_step st + int (n' - n)" by simp
  from f1 f' have "training_frame st st'" by (rule training_frame_trans)
  with ts le' show ?case by simp
qed

lemma train_epochs_result:
  "train_epochs ex st buf E = Some (Inr (st', kl, n)) \<Longrightarrow>
     train_step st' = train_step st + int n \<and> nat (ppo_epochs (cfg st)) \<le> n
     \<and> training_frame st st'"
  unfolding train_epochs_def by (drule epoch_loop_result) simp

lemma fl_round_not_nan [simp]: "fl_round F x \<noteq> NaN"
  by (simp add: fl_round_def)

lemma py_max_ge: "a \<noteq> NaN \<Longrightarrow> b \<noteq> NaN \<Longrightarrow> fl_le b (py_max a b)"
  by (cases a; cases b) (auto simp: py_max_def fl_le_def)

lemma fl_mul_not_nan: "a \<noteq> NaN \<Longrightarrow> y > 0 \<Longrightarrow> fl_mul F a (Fin y) \<noteq> NaN"
  by (cases a) (simp_all add: inf_of_sign_def)

lemma fl_div_not_nan: "a \<noteq> NaN \<Longrightarrow> y > 0 \<Longrightarrow> fl_div F a (Fin y) \<noteq> NaN"
  by (cases a) simp_all

lemma fl_mul_nan [simp]: "fl_mul F NaN b = NaN"
  by (cases b) simp_all

lemma fl_div_nan [simp]: "fl_div F NaN b = NaN"
  by (cases b) simp_all

text \<open>
  Claim C4, as amended. For every call of \<^verbatim>\<open>_train\<close> that returns, with \<open>k\<close> the value of
  \<open>kl_coeff\<close> on entry and \<open>kl_old_mean\<close> the value the epochs leave in that variable (the
  Python float \<open>0.0\<close> when no minibatch ran, a \<^verbatim>\<open>float32\<close> tensor otherwise), \<open>kl_coeff\<close> is
  afterwards \<open>max(f(k), 1e-6)\<close>, where \<open>f(k)\<close> is \<open>k * 1.5\<close> if \<open>kl_old_mean > target_kl\<close>,
  \<open>k / 1.5\<close> if \<open>kl_old_mean < target_kl / 2\<close>, and \<open>k\<close> otherwise, the comparisons being those
  the program makes: a tensor is compared with \<open>target_kl\<close> and \<open>target_kl / 2\<close> taken to
  \<^verbatim>\<open>float32\<close>, and NaN compares false. So \<open>kl_coeff \<ge> 1e-6\<close> after every training step that
  \<open>kl_coeff\<close> did not enter as NaN; a NaN stays.
\<close>

theorem train_adjusts_kl_coeff:
  assumes "train ex st buf experience_size = Some (Inr st')"
  shows "\<exists>st1 kl_old_mean num_sgd_steps.
      train_epochs ex st buf experience_size = Some (Inr (st1, kl_old_mean, num_sgd_steps))
    \<and> kl_coeff st' =
        py_max
          (if scalar_greater (floats ex) kl_old_mean (Fin (target_kl (cfg st)))
           then fl_mul (float64 (floats ex)) (kl_coeff st) (Fin 1.5)
           else if scalar_less (floats ex) kl_old_mean
                     (fl_div (float64 (floats ex)) (Fin (target_kl (cfg st))) (Fin 2))
           then fl_div (float64 (floats ex)) (kl_coeff st) (Fin 1.5)
           else kl_coeff st)
          (py_literal (floats ex) (1 / 1000000))
    \<and> (kl_coeff st \<noteq> NaN \<longrightarrow> fl_le (py_literal (floats ex) (1 / 1000000)) (kl_coeff st'))
    \<and> (kl_coeff st = NaN \<longrightarrow> kl_coeff st' = NaN)"
proof -
  let ?A = "floats ex"
  let ?lit = "py_literal ?A (1 / 1000000)"
  from assms obtain st1 kl n
    where e: "train_epochs ex st buf experience_size = Some (Inr (st1, kl, n))"
      and s: "st' = adjust_kl_coeff ?A st1 kl"
    by (auto simp: train_def split: option.splits sum.splits)
  from train_epochs_result[OF e] have f: "cfg st1 = cfg st" "kl_coeff st1 = kl_coeff st"
    by (simp_all add: training_frame_def)
  define k1 where "k1 =
          (if scalar_greater ?A kl (Fin (target_kl (cfg st)))
           then fl_mul (float64 ?A) (kl_coeff st) (Fin 1.5)
           else if scalar_less ?A kl (fl_div (float64 ?A) (Fin (target_kl (cfg st))) (Fin 2))
           then fl_div (float64 ?A) (kl_coeff st) (Fin 1.5)
           else kl_coeff st)"
  have k: "kl_coeff st' = py_max k1 ?lit"
    by (simp add: s adjust_kl_coeff_def Let_def f k1_def)
  have lit: "?lit \<noteq> NaN" by (simp add: py_literal_def)
  have ge: "fl_le ?lit (kl_coeff st')" if "kl_coeff st \<noteq> NaN"
  proof -
    from that have "k1 \<noteq> NaN" by (simp add: k1_def fl_mul_not_nan fl_div_not_nan)
    from py_max_ge[OF this lit] k show ?thesis by simp
  qed
  have nan: "kl_coeff st' = NaN" if "kl_coeff st = NaN"
  proof -
    from that have "k1 = NaN" by (simp add: k1_def)
    with k show ?thesis by (simp add: py_max_def)
  qed
  from e k ge nan show ?thesis unfolding k1_def by blast
qed

lemmas eval_train =
  train_def train_epochs_def epoch_loop.simps minibatch_loop.simps get_minibatches_def
  assert_mod_zero_def after_optimizer_step_def maybe_save_def adjust_kl_coeff_def py_max_def
  example_externals_def

text \<open>
  The claim as stated fails for a coefficient that enters as NaN, from the configuration or
  from a checkpoint: Python's \<^verbatim>\<open>max(nan, 1e-6)\<close> is NaN, which is not at least \<^verbatim>\<open>1e-6\<close>.
\<close>

theorem train_nan_kl_coeff_counterexample:
  "\<exists>st'. train example_externals (example_learner\<lparr>kl_coeff := NaN\<rparr>)
             [example_rollout 0 10, example_rollout 1 10] 2 = Some (Inr st')
      \<and> kl_coeff st' = NaN
      \<and> \<not> fl_le (py_literal example_arith (1 / 1000000)) (kl_coeff st')"
  by (simp add: eval_train eval_save eval_names eval_floats fl_le_def)

text \<open>
  With \<open>target_kl = 0.01\<close>, a final \<open>kl_old_mean\<close> of \<open>0.03\<close> takes \<open>kl_coeff\<close> from \<open>0.2\<close> to \<open>0.3\<close>.
  With \<open>target_kl = 0.3\<close> and a final \<open>kl_old_mean\<close> that is the \<^verbatim>\<open>float32\<close> neighbour of \<open>0.3\<close>,
  which is the greater number of the two, the comparison is made in \<^verbatim>\<open>float32\<close> and
  \<open>kl_coeff\<close> stays at \<open>0.25\<close>.
\<close>

theorem train_adjusts_kl_coeff_witness:
  "(\<exists>st'. train example_externals example_learner [example_rollout 0 10, example_rollout 1 10] 2
            = Some (Inr st')
      \<and> kl_coeff example_learner = Fin (1 / 5) \<and> target_kl (cfg example_learner) = 1 / 100
      \<and> kl_coeff st' = Fin (3 / 10)
      \<and> fl_le (py_literal example_arith (1 / 1000000)) (kl_coeff st'))
   \<and> (\<exists>st'. train
             (example_externals\<lparr>minibatch_update :=
                (\<lambda>st buf indices.
                   Inr (Suc (actor_critic st), optimizer st, Fin (5033165 / 16777216)))\<rparr>)
             (example_learner\<lparr>kl_coeff := Fin (1 / 4),
                cfg := example_config\<lparr>target_kl := 5404319552844595 / 18014398509481984\<rparr>\<rparr>)
             [example_rollout 0 10, example_rollout 1 10] 2
            = Some (Inr st')
      \<and> (5404319552844595 / 18014398509481984 :: real) < 5033165 / 16777216
      \<and> kl_coeff st' = Fin (1 / 4))"
proof -
  let ?buf = "[example_rollout 0 10, example_rollout 1 10]"
  let ?ex2 = "example_externals\<lparr>minibatch_update :=
                (\<lambda>st buf indices.
                   Inr (Suc (actor_critic st), optimizer st, Fin (5033165 / 16777216)))\<rparr>"
  let ?st2 = "example_learner\<lparr>kl_coeff := Fin (1 / 4),
                cfg := example_config\<lparr>target_kl := 5404319552844595 / 18014398509481984\<rparr>\<rparr>"
  have "\<exists>st'. train example_externals example_learner ?buf 2 = Some (Inr st')"
    by (simp add: eval_train eval_save eval_names)
  then obtain st' where t: "train example_externals example_learner ?buf 2 = Some (Inr st')" ..
  have "\<exists>st1 n. train_epochs example_externals example_learner ?buf 2
                  = Some (Inr (st1, Float32_tensor (Fin (3 / 100)), n))"
    by (simp add: eval_train eval_save eval_names)
  then obtain st1 n
    where e: "train_epochs example_externals example_learner ?buf 2
                = Some (Inr (st1, Float32_tensor (Fin (3 / 100)), n))"
    by blast
  have c: "kl_coeff example_learner = Fin (1 / 5)" "target_kl (cfg example_learner) = 1 / 100"
    "floats example_externals = example_arith"
    by (simp_all add: example_learner_def example_config_def example_externals_def)
  from train_adjusts_kl_coeff[OF t] e
  have 1: "kl_coeff st' = Fin (3 / 10)"
    and 2: "fl_le (py_literal example_arith (1 / 1000000)) (kl_coeff st')"
    by (auto simp: c eval_floats)
  have "\<exists>st'. train ?ex2 ?st2 ?buf 2 = Some (Inr st')"
    by (simp add: eval_train eval_save eval_names)
  then obtain st2' where t2: "train ?ex2 ?st2 ?buf 2 = Some (Inr st2')" ..
  have "\<exists>st1 n. train_epochs ?ex2 ?st2 ?buf 2
                  = Some (Inr (st1, Float32_tensor (Fin (5033165 / 16777216)), n))"
    by (simp add: eval_train eval_save eval_names)
  then obtain st1' n'
    where e2: "train_epochs ?ex2 ?st2 ?buf 2
                = Some (Inr (st1', Float32_tensor (Fin (5033165 / 16777216)), n'))"
    by blast
  have c2: "kl_coeff ?st2 = Fin (1 / 4)"
    "target_kl (cfg ?st2) = 5404319552844595 / 18014398509481984"
    "floats ?ex2 = example_arith"
    by (simp_all add: example_externals_def)
  from train_adjusts_kl_coeff[OF t2] e2
  have 3: "kl_coeff st2' = Fin (1 / 4)"
    by (auto simp: c2 eval_floats)
  from t c 1 2 t2 3 show ?thesis by auto
qed

subsection \<open>A run of the training thread\<close>

lemma keeps_epochs_fold:
  "list_all keeps_epochs assigns \<Longrightarrow> ppo_epochs c \<ge> 1 \<Longrightarrow>
     ppo_epochs (fold apply_cfg_assign assigns c) \<ge> 1"
proof (induction assigns arbitrary: c)
  case Nil
  then show ?case by simp
next
  case (Cons a assigns)
  from Cons.prems have "ppo_epochs (apply_cfg_assign a c) \<ge> 1" by (cases a) simp_all
  with Cons show ?case by simp
qed

lemma load_from_checkpoint_other:
  "load_from_checkpoint st pid = Inr st' \<Longrightarrow> pid \<noteq> policy_id st \<Longrightarrow>
     train_step st' = train_step st \<and> policy_id st' = policy_id st \<and> cfg st' = cfg st
     \<and> new_cfg st' = new_cfg st \<and> with_training st' = with_training st
     \<and> policy_worker_queues st' = policy_worker_queues st \<and> env_steps st' = env_steps st"
  by (auto simp: load_from_checkpoint_def load_state_def Let_def split: sum.splits option.splits)

lemma update_pbt_forward:
  assumes u: "update_pbt st = Inr st'" and l: "load_policy_id st \<noteq> Some (policy_id st)"
  shows "train_step st' = train_step st \<and> policy_id st' = policy_id st
     \<and> with_training st' = with_training st
     \<and> policy_worker_queues st' = policy_worker_queues st
     \<and> load_policy_id st' = None \<and> new_cfg st' = None
     \<and> cfg st' = (case new_cfg st of None \<Rightarrow> cfg st
                   | Some assigns \<Rightarrow> fold apply_cfg_assign assigns (cfg st))"
proof -
  define L where "L = (case load_policy_id st of
              None \<Rightarrow> Inr st
            | Some pid \<Rightarrow>
                if \<not> with_pbt (cfg st) then Inl AssertionError
                else (case load_from_checkpoint st pid of
                        Inl e \<Rightarrow> Inl e
                      | Inr st' \<Rightarrow> Inr (st'\<lparr>load_policy_id := None\<rparr>)))"
  define C where "C = (\<lambda>st1 :: ('a, 'b) learner. (case new_cfg st1 of
             None \<Rightarrow> Inr st1
           | Some assigns \<Rightarrow>
               let c = fold apply_cfg_assign assigns (cfg st1)
               in (Inr (st1\<lparr>cfg := c,
                           optimizer := (optimizer st1)
                             \<lparr>opt_lr := learning_rate c,
                              opt_betas := (adam_beta1 c, adam_beta2 c)\<rparr>,
                           new_cfg := None\<rparr>) :: error + ('a, 'b) learner)))"
  have "update_pbt st = (case L of Inl e \<Rightarrow> Inl e | Inr st1 \<Rightarrow> C st1)"
    unfolding update_pbt_def L_def C_def by (rule refl)
  with u obtain st1 where a0: "L = Inr st1" and b0: "C st1 = Inr st'"
    by (cases L) simp_all
  note a = a0[unfolded L_def] and b = b0[unfolded C_def]
  have s1: "train_step st1 = train_step st \<and> policy_id st1 = policy_id st \<and> cfg st1 = cfg st
     \<and> new_cfg st1 = new_cfg st \<and> with_training st1 = with_training st
     \<and> policy_worker_queues st1 = policy_worker_queues st \<and> load_policy_id st1 = None"
  proof (cases "load_policy_id st")
    case None
    with a show ?thesis by simp
  next
    case (Some pid)
    with l have ne: "pid \<noteq> policy_id st" by simp
    from a Some obtain st0 where lf: "load_from_checkpoint st pid = Inr st0"
      and e: "st1 = st0\<lparr>load_policy_id := None\<rparr>"
      by (auto split: if_splits sum.splits)
    from load_from_checkpoint_other[OF lf ne] e show ?thesis by simp
  qed
  show ?thesis
  proof (cases "new_cfg st1")
    case None
    with b have "st' = st1" by simp
    moreover from s1 None have "new_cfg st = None" by simp
    ultimately show ?thesis using s1 by simp
  next
    case (Some assigns)
    with b have "st' = st1\<lparr>cfg := fold apply_cfg_assign assigns (cfg st1),
                           optimizer := (optimizer st1)
                             \<lparr>opt_lr := learning_rate (fold apply_cfg_assign assigns (cfg st1)),
                              opt_betas := (adam_beta1 (fold apply_cfg_assign assigns (cfg st1)),
                                            adam_beta2 (fold apply_cfg_assign assigns (cfg st1)))\<rparr>,
                           new_cfg := None\<rparr>"
      by (simp add: Let_def)
    moreover from s1 Some have "new_cfg st = Some assigns" by simp
    ultimately show ?thesis using s1 by simp
  qed
qed

lemma train_result:
  assumes "train ex st buf E = Some (Inr st')"
  shows "\<exists>st1 kl n. train_epochs ex st buf E = Some (Inr (st1, kl, n))
     \<and> train_step st' = train_step st + int n \<and> nat (ppo_epochs (cfg st)) \<le> n
     \<and> policy_id st' = policy_id st \<and> cfg st' = cfg st
     \<and> load_policy_id st' = load_policy_id st \<and> new_cfg st' = new_cfg st
     \<and> with_training st' = with_training st
     \<and> policy_worker_queues st' = policy_worker_queues st"
proof -
  from assms obtain st1 kl n
    where e: "train_epochs ex st buf E = Some (Inr (st1, kl, n))"
      and s: "st' = adjust_kl_coeff (floats ex) st1 kl"
    by (auto simp: train_def split: option.splits sum.splits)
  from train_epochs_result[OF e] s have "train_step st' = train_step st + int n
     \<and> nat (ppo_epochs (cfg st)) \<le> n
     \<and> policy_id st' = policy_id st \<and> cfg st' = cfg st
     \<and> load_policy_id st' = load_policy_id st \<and> new_cfg st' = new_cfg st
     \<and> with_training st' = with_training st
     \<and> policy_worker_queues st' = policy_worker_queues st"
    by (simp add: training_frame_def adjust_kl_coeff_def Let_def)
  with e show ?thesis by blast
qed

lemma process_pbt_task_inv:
  "process_pbt_task st task = Inr st' \<Longrightarrow> forward_task own task \<Longrightarrow> run_invariant own st \<Longrightarrow>
     run_invariant own st' \<and> train_step st' = train_step st"
  by (cases task) (auto simp: run_invariant_def split: if_splits)

lemma process_pbt_tasks_inv:
  "process_pbt_tasks st tasks = Inr st' \<Longrightarrow> list_all (forward_task own) tasks \<Longrightarrow>
     run_invariant own st \<Longrightarrow> run_invariant own st' \<and> train_step st' = train_step st"
proof (induction tasks arbitrary: st)
  case Nil
  then show ?case by simp
next
  case (Cons task tasks)
  from Cons.prems(1) obtain st1 where t: "process_pbt_task st task = Inr st1"
    and r: "process_pbt_tasks st1 tasks = Inr st'" by (auto split: sum.splits)
  from Cons.prems(2) have f: "forward_task own task" "list_all (forward_task own) tasks" by simp_all
  from process_pbt_task_inv[OF t f(1) Cons.prems(3)]
  have i1: "run_invariant own st1" and s1: "train_step st1 = train_step st" by simp_all
  from Cons.IH[OF r f(2) i1] s1 show ?case by simp
qed

lemma process_training_data_steps:
  assumes p: "process_training_data ex st data = Some (Inr st')"
    and w: "with_training st" and l: "load_policy_id st \<noteq> Some (policy_id st)"
  shows "\<exists>rate st2 st3 kl n.
       discarding_rate (discarded_experience_over_time st) = Inr rate
     \<and> update_pbt (st\<lparr>env_steps := env_steps st + snd (snd data)\<rparr>) = Inr st2
     \<and> train_step st2 = train_step st
     \<and> train_epochs ex st2 (fst data) (buffer_size (fst data)) = Some (Inr (st3, kl, n))
     \<and> train ex st2 (fst data) (buffer_size (fst data)) = Some (Inr (adjust_kl_coeff (floats ex) st3 kl))
     \<and> st' = broadcast_weights (adjust_kl_coeff (floats ex) st3 kl) rate
     \<and> train_step st' = train_step st + int n"
proof -
  obtain buf samples steps where d: "data = (buf, samples, steps)" by (cases data)
  let ?st1 = "st\<lparr>env_steps := env_steps st + steps\<rparr>"
  from p d w obtain rate st2 st3
    where r: "discarding_rate (discarded_experience_over_time st) = Inr rate"
      and u: "update_pbt ?st1 = Inr st2"
      and t: "train ex st2 buf (buffer_size buf) = Some (Inr st3)"
      and s: "st' = broadcast_weights st3 rate"
    by (auto simp: process_training_data_def Let_def split: sum.splits option.splits)
  from l have "load_policy_id ?st1 \<noteq> Some (policy_id ?st1)" by simp
  from update_pbt_forward[OF u this] have t2: "train_step st2 = train_step st" by simp
  from t obtain st4 kl n
    where e: "train_epochs ex st2 buf (buffer_size buf) = Some (Inr (st4, kl, n))"
      and a: "st3 = adjust_kl_coeff (floats ex) st4 kl"
    by (auto simp: train_def split: option.splits sum.splits)
  from train_result[OF t] e have "train_step st3 = train_step st2 + int n" by simp
  with s t2 have "train_step st' = train_step st + int n"
    by (simp add: broadcast_weights_def Let_def)
  with r u t2 e t a s d show ?thesis by auto
qed

lemma sorted_wrt_snoc_less:
  "sorted_wrt (<) xs \<Longrightarrow> list_all (\<lambda>x. x \<le> b) xs \<Longrightarrow> b < (v::int) \<Longrightarrow> sorted_wrt (<) (xs @ [v])"
  by (auto simp: sorted_wrt_append list_all_iff)

lemma process_training_data_inv:
  assumes p: "process_training_data ex st data = Some (Inr st')" and i: "run_invariant own st"
  shows "run_invariant own st' \<and> train_step st \<le> train_step st'"
proof (cases "with_training st")
  case False
  with p have "st' = st\<lparr>env_steps := env_steps st + snd (snd data)\<rparr>"
    by (cases data) (auto simp: process_training_data_def Let_def split: sum.splits)
  with i show ?thesis by (simp add: run_invariant_def)
next
  case True
  from i have l: "load_policy_id st \<noteq> Some (policy_id st)" by (simp add: run_invariant_def)
  let ?st1 = "st\<lparr>env_steps := env_steps st + snd (snd data)\<rparr>"
  from process_training_data_steps[OF p True l] obtain rate st2 st3 kl n
    where u: "update_pbt ?st1 = Inr st2"
      and t: "train ex st2 (fst data) (buffer_size (fst data)) = Some (Inr (adjust_kl_coeff (floats ex) st3 kl))"
      and s: "st' = broadcast_weights (adjust_kl_coeff (floats ex) st3 kl) rate"
    by blast
  let ?st3 = "adjust_kl_coeff (floats ex) st3 kl"
  from l have "load_policy_id ?st1 \<noteq> Some (policy_id ?st1)" by simp
  note f = update_pbt_forward[OF u this]
  from f i have c2: "ppo_epochs (cfg st2) \<ge> 1"
    by (cases "new_cfg st") (simp_all add: run_invariant_def keeps_epochs_fold)
  from train_result[OF t] obtain m where ts: "train_step ?st3 = train_step st2 + int m"
    and m: "nat (ppo_epochs (cfg st2)) \<le> m"
    and r: "policy_id ?st3 = policy_id st2" "cfg ?st3 = cfg st2"
      "load_policy_id ?st3 = load_policy_id st2" "new_cfg ?st3 = new_cfg st2"
      "policy_worker_queues ?st3 = policy_worker_queues st2"
    by blast
  from c2 m have "m \<ge> 1" by simp
  with ts f have lt: "train_step st < train_step ?st3" by simp
  from f r have q: "policy_worker_queues ?st3 = policy_worker_queues st" by simp
  from i have so: "sorted_wrt (<) (map fst (policy_worker_queues st))"
    and la: "list_all (\<lambda>v. v \<le> train_step st) (map fst (policy_worker_queues st))"
    by (simp_all add: run_invariant_def)
  have q': "map fst (policy_worker_queues st') = map fst (policy_worker_queues st) @ [train_step ?st3]"
    and ts': "train_step st' = train_step ?st3"
    by (simp_all add: s broadcast_weights_def Let_def q)
  from sorted_wrt_snoc_less[OF so la lt] have so': "sorted_wrt (<) (map fst (policy_worker_queues st'))"
    by (simp only: q')
  from la lt have la': "list_all (\<lambda>v. v \<le> train_step st') (map fst (policy_worker_queues st'))"
    by (auto simp: q' ts' list_all_iff)
  have o: "policy_id st' = own" "load_policy_id st' = None" "new_cfg st' = None" "cfg st' = cfg st2"
    using f r i by (simp_all add: s broadcast_weights_def Let_def run_invariant_def)
  from o c2 so' la' lt ts' show ?thesis by (simp add: run_invariant_def)
qed

lemma run_invariant_window [simp]:
  "run_invariant own (st\<lparr>discarded_experience_over_time := w\<rparr>) = run_invariant own st"
  by (simp add: run_invariant_def)

lemma run_batches_inv:
  "run_batches ex evs st = Some (Inr st') \<Longrightarrow>
   \<forall>ev\<in>set evs. list_all (forward_task own) (ev_pbt_tasks ev) \<Longrightarrow>
   run_invariant own st \<Longrightarrow> run_invariant own st' \<and> train_step st \<le> train_step st'"
proof (induction evs arbitrary: st)
  case Nil
  then show ?case by simp
next
  case (Cons ev evs)
  from Cons.prems(1) obtain st1 st2
    where t: "process_pbt_tasks st (ev_pbt_tasks ev) = Inr st1"
      and p: "process_training_data ex (st1\<lparr>discarded_experience_over_time := ev_window ev\<rparr>)
                (ev_data ev) = Some (Inr st2)"
      and r: "run_batches ex evs st2 = Some (Inr st')"
    by (auto split: sum.splits option.splits)
  from Cons.prems(2) have f: "list_all (forward_task own) (ev_pbt_tasks ev)"
    "\<forall>ev\<in>set evs. list_all (forward_task own) (ev_pbt_tasks ev)" by simp_all
  from process_pbt_tasks_inv[OF t f(1) Cons.prems(3)]
  have i1: "run_invariant own st1" and s1: "train_step st1 = train_step st" by simp_all
  from i1 have "run_invariant own (st1\<lparr>discarded_experience_over_time := ev_window ev\<rparr>)" by simp
  from process_training_data_inv[OF p this]
  have i2: "run_invariant own st2" and s2: "train_step st1 \<le> train_step st2" by simp_all
  from Cons.IH[OF r f(2) i2] s1 s2 show ?case by simp
qed

lemma run_batches_append:
  "run_batches ex (evs1 @ evs2) st = Some (Inr st') \<Longrightarrow>
     \<exists>sm. run_batches ex evs1 st = Some (Inr sm) \<and> run_batches ex evs2 sm = Some (Inr st')"
proof (induction evs1 arbitrary: st)
  case Nil
  then show ?case by simp
next
  case (Cons ev evs1)
  from Cons.prems obtain st1 st2
    where t: "process_pbt_tasks st (ev_pbt_tasks ev) = Inr st1"
      and p: "process_training_data ex (st1\<lparr>discarded_experience_over_time := ev_window ev\<rparr>)
                (ev_data ev) = Some (Inr st2)"
      and r: "run_batches ex (evs1 @ evs2) st2 = Some (Inr st')"
    by (auto split: sum.splits option.splits)
  from Cons.IH[OF r] t p show ?case by simp
qed

lemma initialize_inv:
  assumes "initialize st = Inr st1" and "policy_worker_queues st = []"
    and "load_policy_id st \<noteq> Some (policy_id st)" and "ppo_epochs (cfg st) \<ge> 1"
    and "case new_cfg st of None \<Rightarrow> True | Some assigns \<Rightarrow> list_all keeps_epochs assigns"
  shows "run_invariant (policy_id st) st1"
proof -
  from assms(1) obtain st0 rate where l: "load_from_checkpoint st (policy_id st) = Inr st0"
    and b: "st1 = broadcast_weights st0 rate"
    by (auto simp: initialize_def split: sum.splits)
  from l have "policy_id st0 = policy_id st \<and> cfg st0 = cfg st
     \<and> load_policy_id st0 = load_policy_id st \<and> new_cfg st0 = new_cfg st
     \<and> policy_worker_queues st0 = policy_worker_queues st"
    by (auto simp: load_from_checkpoint_def load_state_def Let_def split: sum.splits option.splits)
  with b assms(2-5) show ?thesis
    by (simp add: run_invariant_def broadcast_weights_def Let_def)
qed

text \<open>
  Claim C9, as amended. In a run of the training thread in which no PBT task makes the
  learner reload its own checkpoints and \<^verbatim>\<open>ppo_epochs\<close> is and stays at least one, the versions
  of the broadcasts (the first at initialisation, then one after each batch) increase
  strictly from one broadcast to the next, and \<open>train_step\<close> after any number of batches is at
  most what it is after more of them. \<^verbatim>\<open>_after_optimizer_step\<close> adds exactly one to
  \<open>train_step\<close>, and a batch that loads no checkpoint of the learner's own adds to \<open>train_step\<close>
  exactly the number of optimizer steps it performs (\<^verbatim>\<open>num_sgd_steps\<close>): apart from
  \<^verbatim>\<open>_load_state\<close> with \<^verbatim>\<open>load_progress\<close>, which assigns it, nothing else writes \<open>train_step\<close>.
\<close>

theorem broadcast_versions_increase:
  assumes run: "learner_run ex evs st = Some (Inr st')"
    and fw: "\<forall>ev\<in>set evs. list_all (forward_task (policy_id st)) (ev_pbt_tasks ev)"
    and q: "policy_worker_queues st = []"
    and l: "load_policy_id st \<noteq> Some (policy_id st)"
    and e: "ppo_epochs (cfg st) \<ge> 1"
    and c: "case new_cfg st of None \<Rightarrow> True | Some assigns \<Rightarrow> list_all keeps_epochs assigns"
  shows "sorted_wrt (<) (map fst (policy_worker_queues st'))
     \<and> (\<forall>evs1 evs2. evs = evs1 @ evs2 \<longrightarrow>
          (\<exists>sm. learner_run ex evs1 st = Some (Inr sm) \<and> train_step sm \<le> train_step st'
             \<and> run_batches ex evs2 sm = Some (Inr st')))
     \<and> (\<forall>s s'. after_optimizer_step ex s = Some (Inr s') \<longrightarrow> train_step s' = train_step s + 1)
     \<and> (\<forall>s data s'. process_training_data ex s data = Some (Inr s') \<and> with_training s
            \<and> load_policy_id s \<noteq> Some (policy_id s) \<longrightarrow>
          (\<exists>s2 s3 kl num_sgd_steps.
              update_pbt (s\<lparr>env_steps := env_steps s + snd (snd data)\<rparr>) = Inr s2
            \<and> train_step s2 = train_step s
            \<and> train_epochs ex s2 (fst data) (buffer_size (fst data))
                = Some (Inr (s3, kl, num_sgd_steps))
            \<and> train_step s' = train_step s + int num_sgd_steps))"
proof -
  let ?own = "policy_id st"
  from run obtain st1 where i: "initialize st = Inr st1"
    and r: "run_batches ex evs st1 = Some (Inr st')"
    by (auto simp: learner_run_def split: sum.splits)
  from initialize_inv[OF i q l e c] have inv1: "run_invariant ?own st1" .
  from run_batches_inv[OF r fw inv1] have 1: "sorted_wrt (<) (map fst (policy_worker_queues st'))"
    by (simp add: run_invariant_def)
  have 2: "\<exists>sm. learner_run ex evs1 st = Some (Inr sm) \<and> train_step sm \<le> train_step st'
             \<and> run_batches ex evs2 sm = Some (Inr st')"
    if sp: "evs = evs1 @ evs2" for evs1 evs2
  proof -
    from r sp have "run_batches ex (evs1 @ evs2) st1 = Some (Inr st')" by simp
    from run_batches_append[OF this] obtain sm where a: "run_batches ex evs1 st1 = Some (Inr sm)"
      and b: "run_batches ex evs2 sm = Some (Inr st')" by blast
    from fw sp have f1: "\<forall>ev\<in>set evs1. list_all (forward_task ?own) (ev_pbt_tasks ev)"
      and f2: "\<forall>ev\<in>set evs2. list_all (forward_task ?own) (ev_pbt_tasks ev)" by simp_all
    from run_batches_inv[OF a f1 inv1] have im: "run_invariant ?own sm" by simp
    from run_batches_inv[OF b f2 im] have "train_step sm \<le> train_step st'" by simp
    moreover from i a have "learner_run ex evs1 st = Some (Inr sm)" by (simp add: learner_run_def)
    ultimately show ?thesis using b by blast
  qed
  have 3: "train_step s' = train_step s + 1" if "after_optimizer_step ex s = Some (Inr s')" for s s'
    using after_optimizer_step_frame[OF that] by simp
  have 4: "\<exists>s2 s3 kl num_sgd_steps.
              update_pbt (s\<lparr>env_steps := env_steps s + snd (snd data)\<rparr>) = Inr s2
            \<and> train_step s2 = train_step s
            \<and> train_epochs ex s2 (fst data) (buffer_size (fst data))
                = Some (Inr (s3, kl, num_sgd_steps))
            \<and> train_step s' = train_step s + int num_sgd_steps"
    if "process_training_data ex s data = Some (Inr s') \<and> with_training s
            \<and> load_policy_id s \<noteq> Some (policy_id s)" for s data s'
  proof -
    from that have a: "process_training_data ex s data = Some (Inr s')" "with_training s"
      "load_policy_id s \<noteq> Some (policy_id s)" by simp_all
    from process_training_data_steps[OF a] show ?thesis by blast
  qed
  from 1 2 3 4 show ?thesis by blast
qed

lemmas eval_run =
  broadcast_versions_def learner_run_def initialize_def run_batches.simps
  process_pbt_tasks.simps process_pbt_task.simps process_training_data_def update_pbt_def
  broadcast_weights_def discarding_rate_def load_from_checkpoint_def load_state_def
  buffer_size_def example_event_def example_rollout_def

text \<open>
  The claim as stated fails in two ways. A PBT task \<^verbatim>\<open>LOAD_MODEL(0, 0)\<close>, which
  \<^verbatim>\<open>_process_pbt_task\<close> accepts, makes learner 0 reload its own latest checkpoint: \<open>train_step\<close>
  falls from 12 back to 11 and the next broadcast repeats version 12. And with
  \<^verbatim>\<open>ppo_epochs = 0\<close> a batch performs no optimizer step, so its broadcast repeats the version
  of the one before.
\<close>

theorem broadcast_versions_repeat_counterexample:
  "broadcast_versions example_externals
       [example_event [], example_event [], example_event [LOAD_MODEL 0 0]] example_learner
     = Some [10, 11, 12, 12]
   \<and> broadcast_versions example_externals [example_event []]
         (example_learner\<lparr>cfg := example_config\<lparr>ppo_epochs := 0\<rparr>\<rparr>)
     = Some [10, 10]"
  by (simp add: eval_run eval_train eval_save eval_names)

text \<open>
  Two batches, the second after a load from policy 1 (which has no checkpoint) and a
  configuration update to two epochs.
\<close>

theorem broadcast_versions_increase_witness:
  "\<exists>st'. learner_run example_externals
            [example_event [],
             example_event [LOAD_MODEL 0 1, UPDATE_CFG 0 [Set_learning_rate (1 / 1000), Set_ppo_epochs 2]]]
            example_learner = Some (Inr st')
      \<and> map fst (policy_worker_queues st') = [10, 11, 13]
      \<and> sorted_wrt (<) (map fst (policy_worker_queues st'))
      \<and> train_step st' = 13"
proof -
  let ?evs = "[example_event [],
             example_event [LOAD_MODEL 0 1, UPDATE_CFG 0 [Set_learning_rate (1 / 1000), Set_ppo_epochs 2]]]"
  have "\<exists>st'. learner_run example_externals ?evs example_learner = Some (Inr st')
      \<and> map fst (policy_worker_queues st') = [10, 11, 13] \<and> train_step st' = 13"
    by (simp add: eval_run eval_train eval_save eval_names numeral_2_eq_2)
  then obtain st' where r: "learner_run example_externals ?evs example_learner = Some (Inr st')"
    and v: "map fst (policy_worker_queues st') = [10, 11, 13]" and t: "train_step st' = 13"
    by (elim exE conjE)
  have fw: "\<forall>ev\<in>set ?evs. list_all (forward_task (policy_id example_learner)) (ev_pbt_tasks ev)"
    by (simp add: example_event_def example_learner_def)
  have h: "policy_worker_queues example_learner = []"
    "load_policy_id example_learner \<noteq> Some (policy_id example_learner)"
    "ppo_epochs (cfg example_learner) \<ge> 1"
    "case new_cfg example_learner of None \<Rightarrow> True | Some assigns \<Rightarrow> list_all keeps_epochs assigns"
    by (simp_all add: example_learner_def example_config_def)
  from broadcast_versions_increase[OF r fw h]
  have "sorted_wrt (<) (map fst (policy_worker_queues st'))" by blast
  with r v t have "learner_run example_externals ?evs example_learner = Some (Inr st')
      \<and> map fst (policy_worker_queues st') = [10, 11, 13]
      \<and> sorted_wrt (<) (map fst (policy_worker_queues st'))
      \<and> train_step st' = 13" by (intro conjI)
  then show ?thesis by (rule exI)
qed

end
